theory Spec2Isabelle
  imports Main
begin

section \<open>JavaScript strings\<close>

text \<open>
  A JavaScript string is modelled as a \<^typ>\<open>string\<close>: a list of 8-bit code units
  (the Latin-1 range of the UTF-16 code units the program sees).  The helpers
  below are the library calls the pipeline uses, restricted to that range.
\<close>

text \<open>White space as matched by \<^verbatim>\<open>\s\<close> and removed by \<^verbatim>\<open>String.prototype.trim\<close>:
  TAB, LF, VT, FF, CR, SPACE and NBSP.\<close>

definition isSpaceJS :: "char \<Rightarrow> bool" where
  "isSpaceJS c = (c \<in> set [CHR 0x09, CHR 0x0A, CHR 0x0B, CHR 0x0C, CHR 0x0D, CHR 0x20, CHR 0xA0])"

text \<open>\<^verbatim>\<open>s.trim()\<close>\<close>

definition trimJS :: "string \<Rightarrow> string" where
  "trimJS s = rev (dropWhile isSpaceJS (rev (dropWhile isSpaceJS s)))"

text \<open>
  Case mapping of one code unit: the ASCII letters and the Latin-1 letters whose
  counterpart is again a Latin-1 code unit.
\<close>

definition toLowerChar :: "char \<Rightarrow> char" where
  "toLowerChar c =
     (let n = of_char c :: nat
      in if (65 \<le> n \<and> n \<le> 90) \<or> (192 \<le> n \<and> n \<le> 214) \<or> (216 \<le> n \<and> n \<le> 222)
         then char_of (n + 32) else c)"

definition toUpperChar :: "char \<Rightarrow> char" where
  "toUpperChar c =
     (let n = of_char c :: nat
      in if (97 \<le> n \<and> n \<le> 122) \<or> (224 \<le> n \<and> n \<le> 246) \<or> (248 \<le> n \<and> n \<le> 254)
         then char_of (n - 32) else c)"

text \<open>\<^verbatim>\<open>s.toLowerCase()\<close> and \<^verbatim>\<open>s.toUpperCase()\<close>\<close>

definition toLowerCaseJS :: "string \<Rightarrow> string" where
  "toLowerCaseJS s = map toLowerChar s"

definition toUpperCaseJS :: "string \<Rightarrow> string" where
  "toUpperCaseJS s = map toUpperChar s"

text \<open>\<^verbatim>\<open>s.startsWith(p)\<close>\<close>

fun startsWith :: "string \<Rightarrow> string \<Rightarrow> bool" where
  "startsWith s [] = True"
| "startsWith [] (p # ps) = False"
| "startsWith (c # cs) (p # ps) = (if c = p then startsWith cs ps else False)"

text \<open>\<^verbatim>\<open>s.includes(p)\<close>\<close>

fun includesJS :: "string \<Rightarrow> string \<Rightarrow> bool" where
  "includesJS [] p = (p = [])"
| "includesJS (c # cs) p = (if startsWith (c # cs) p then True else includesJS cs p)"

text \<open>A literal regex prefix under the \<^verbatim>\<open>i\<close> flag: the subject starts with the
  pattern, letters compared without case.\<close>

fun startsWithCI :: "string \<Rightarrow> string \<Rightarrow> bool" where
  "startsWithCI s [] = True"
| "startsWithCI [] (p # ps) = False"
| "startsWithCI (c # cs) (p # ps) =
     (if toLowerChar c = toLowerChar p then startsWithCI cs ps else False)"

section \<open>Subject tag parser (\<^verbatim>\<open>server/services/email.js\<close>)\<close>

record tag_result =
  moduleName :: "string option"
  cleanSubject :: string

text \<open>
  \<^verbatim>\<open>subject.match(/^\[([^\]]+)\]/)\<close>: the subject starts with \<^verbatim>\<open>[\<close>, then one or
  more characters other than \<^verbatim>\<open>]\<close>, then \<^verbatim>\<open>]\<close>.  The result is capture group 1
  together with what follows the closing bracket.
\<close>

definition matchTag :: "string \<Rightarrow> (string \<times> string) option" where
  "matchTag subject =
     (case subject of
        [] \<Rightarrow> None
      | c # cs \<Rightarrow>
          if c = CHR ''[''
          then (let inner = takeWhile (\<lambda>x. x \<noteq> CHR '']'') cs;
                    after = dropWhile (\<lambda>x. x \<noteq> CHR '']'') cs
                in if inner \<noteq> [] \<and> after \<noteq> [] then Some (inner, tl after) else None)
          else None)"

text \<open>
  \<^verbatim>\<open>parseModuleTagFromSubject\<close>.  On a match the tag is lower-cased and trimmed;
  \<^verbatim>\<open>subject.replace(/^\[[^\]]+\]\s*/, '').trim()\<close> removes the same bracketed
  prefix, the white space after it, and then trims.
\<close>

definition parseModuleTagFromSubject :: "string \<Rightarrow> tag_result" where
  "parseModuleTagFromSubject subject =
     (case matchTag subject of
        Some (inner, after) \<Rightarrow>
          \<lparr> moduleName = Some (trimJS (toLowerCaseJS inner)),
            cleanSubject = trimJS (dropWhile isSpaceJS after) \<rparr>
      | None \<Rightarrow> \<lparr> moduleName = None, cleanSubject = subject \<rparr>)"

text \<open>JavaScript truthiness of a value that is \<^verbatim>\<open>null\<close> or a string.\<close>

fun truthyStr :: "string option \<Rightarrow> bool" where
  "truthyStr None = False"
| "truthyStr (Some s) = (s \<noteq> [])"

section \<open>Regular-expression replacement\<close>

text \<open>
  \<^verbatim>\<open>text.replace(/re/g, r)\<close> scans the text from left to right.  A matcher gives, for the
  text that starts at the current position, the length of the match there (if any); a
  match is replaced by \<open>r\<close> and the scan resumes after it, otherwise the character is kept.
  None of the patterns below matches the empty string.  The counter is the number of
  characters of the current match that are still to be skipped.
\<close>

fun replaceFrom :: "(string \<Rightarrow> nat option) \<Rightarrow> string \<Rightarrow> nat \<Rightarrow> string \<Rightarrow> string" where
  "replaceFrom m r k [] = []"
| "replaceFrom m r (Suc k) (c # cs) = replaceFrom m r k cs"
| "replaceFrom m r 0 (c # cs) =
     (case m (c # cs) of
        Some (Suc n) \<Rightarrow> r @ replaceFrom m r n cs
      | _ \<Rightarrow> c # replaceFrom m r 0 cs)"

definition replaceAllRe :: "(string \<Rightarrow> nat option) \<Rightarrow> string \<Rightarrow> string \<Rightarrow> string" where
  "replaceAllRe m r s = replaceFrom m r 0 s"

text \<open>A literal pattern under the \<^verbatim>\<open>gi\<close> flags, such as \<^verbatim>\<open>/<\/p>/gi\<close> or \<^verbatim>\<open>/&amp;/gi\<close>.\<close>

definition reLiteralCI :: "string \<Rightarrow> string \<Rightarrow> nat option" where
  "reLiteralCI p s = (if startsWithCI s p then Some (length p) else None)"

text \<open>\<^verbatim>\<open>/<br\s*\/?>/gi\<close>\<close>

definition reBr :: "string \<Rightarrow> nat option" where
  "reBr s =
     (if startsWithCI s ''<br''
      then (let r1 = drop 3 s;
                ws = takeWhile isSpaceJS r1;
                r2 = dropWhile isSpaceJS r1;
                sl = (if r2 \<noteq> [] \<and> hd r2 = CHR ''/'' then 1 else 0);
                r3 = drop sl r2
            in if r3 \<noteq> [] \<and> hd r3 = CHR ''>'' then Some (3 + length ws + sl + 1) else None)
      else None)"

text \<open>\<^verbatim>\<open>/<\/h[1-6]>/gi\<close>\<close>

definition reHeadingClose :: "string \<Rightarrow> nat option" where
  "reHeadingClose s =
     (if startsWithCI s ''</h'' \<and> length s \<ge> 5 \<and> s ! 3 \<in> set ''123456'' \<and> s ! 4 = CHR ''>''
      then Some 5 else None)"

text \<open>Index of the first occurrence of a literal, letters compared without case.\<close>

fun indexOfCI :: "string \<Rightarrow> string \<Rightarrow> nat option" where
  "indexOfCI [] p = (if p = [] then Some 0 else None)"
| "indexOfCI (c # cs) p =
     (if startsWithCI (c # cs) p then Some 0 else map_option Suc (indexOfCI cs p))"

text \<open>
  \<^verbatim>\<open>/<style[^>]*>[\s\S]*?<\/style>/gi\<close> and the same for \<^verbatim>\<open>script\<close>: the opening tag up to
  its first \<^verbatim>\<open>>\<close>, then as little as possible up to the first closing tag.
\<close>

definition reBlock :: "string \<Rightarrow> string \<Rightarrow> nat option" where
  "reBlock nm s =
     (if startsWithCI s (CHR ''<'' # nm)
      then (let r1 = drop (Suc (length nm)) s;
                attrs = takeWhile (\<lambda>x. x \<noteq> CHR ''>'') r1;
                r2 = dropWhile (\<lambda>x. x \<noteq> CHR ''>'') r1
            in case r2 of
                 [] \<Rightarrow> None
               | _ # r3 \<Rightarrow>
                   (case indexOfCI r3 (''</'' @ nm @ ''>'') of
                      None \<Rightarrow> None
                    | Some k \<Rightarrow> Some (Suc (length nm) + length attrs + 1 + k + (length nm + 3))))
      else None)"

text \<open>\<^verbatim>\<open>/<[^>]+>/g\<close>\<close>

definition reTag :: "string \<Rightarrow> nat option" where
  "reTag s =
     (case s of
        [] \<Rightarrow> None
      | c # cs \<Rightarrow>
          if c = CHR ''<''
          then (let inner = takeWhile (\<lambda>x. x \<noteq> CHR ''>'') cs;
                    after = dropWhile (\<lambda>x. x \<noteq> CHR ''>'') cs
                in if inner \<noteq> [] \<and> after \<noteq> [] then Some (length inner + 2) else None)
          else None)"

definition isBlank :: "char \<Rightarrow> bool" where
  "isBlank c = (c = CHR '' '' \<or> c = CHR 0x09)"

text \<open>\<^verbatim>\<open>/[ \t]+/g\<close>\<close>

definition reBlanks :: "string \<Rightarrow> nat option" where
  "reBlanks s = (let b = takeWhile isBlank s in if b \<noteq> [] then Some (length b) else None)"

text \<open>\<^verbatim>\<open>/\n[ \t]+/g\<close>\<close>

definition reNewlineBlanks :: "string \<Rightarrow> nat option" where
  "reNewlineBlanks s =
     (case s of
        [] \<Rightarrow> None
      | c # cs \<Rightarrow>
          if c = CHR 0x0A \<and> takeWhile isBlank cs \<noteq> []
          then Some (Suc (length (takeWhile isBlank cs))) else None)"

text \<open>\<^verbatim>\<open>/[ \t]+\n/g\<close>\<close>

definition reBlanksNewline :: "string \<Rightarrow> nat option" where
  "reBlanksNewline s =
     (let b = takeWhile isBlank s; r = dropWhile isBlank s
      in if b \<noteq> [] \<and> r \<noteq> [] \<and> hd r = CHR 0x0A then Some (Suc (length b)) else None)"

text \<open>\<^verbatim>\<open>/\n{3,}/g\<close>\<close>

definition reNewlines3 :: "string \<Rightarrow> nat option" where
  "reNewlines3 s =
     (let n = length (takeWhile (\<lambda>x. x = CHR 0x0A) s) in if 3 \<le> n then Some n else None)"

section \<open>Content extractor\<close>

subsection \<open>HTML to plain text\<close>

text \<open>\<^verbatim>\<open>htmlToPlainText\<close> of \<^verbatim>\<open>server/services/emailProcessor.js\<close> (the scheduled pass).\<close>

definition htmlToPlainText_processor :: "string \<Rightarrow> string" where
  "htmlToPlainText_processor html =
     (if html = [] then []
      else (let text = html;
                text = replaceAllRe reBr [CHR 0x0A] text;
                text = replaceAllRe (reLiteralCI ''</p>'') [CHR 0x0A, CHR 0x0A] text;
                text = replaceAllRe (reLiteralCI ''</div>'') [CHR 0x0A] text;
                text = replaceAllRe (reBlock ''style'') [] text;
                text = replaceAllRe (reBlock ''script'') [] text;
                text = replaceAllRe reTag [] text;
                text = replaceAllRe (reLiteralCI ''&nbsp;'') '' '' text;
                text = replaceAllRe (reLiteralCI ''&amp;'') ''&'' text;
                text = replaceAllRe (reLiteralCI ''&lt;'') ''<'' text;
                text = replaceAllRe (reLiteralCI ''&gt;'') ''>'' text;
                text = replaceAllRe (reLiteralCI ''&quot;'') [CHR 0x22] text;
                text = replaceAllRe reNewlines3 [CHR 0x0A, CHR 0x0A] text
            in trimJS text))"

text \<open>\<^verbatim>\<open>htmlToPlainText\<close> of the email-inbox routes (the manual endpoints).\<close>

definition htmlToPlainText_route :: "string \<Rightarrow> string" where
  "htmlToPlainText_route html =
     (if html = [] then []
      else (let text = html;
                text = replaceAllRe reBr [CHR 0x0A] text;
                text = replaceAllRe (reLiteralCI ''</p>'') [CHR 0x0A, CHR 0x0A] text;
                text = replaceAllRe (reLiteralCI ''</div>'') [CHR 0x0A] text;
                text = replaceAllRe (reLiteralCI ''</li>'') [CHR 0x0A] text;
                text = replaceAllRe (reLiteralCI ''</tr>'') [CHR 0x0A] text;
                text = replaceAllRe reHeadingClose [CHR 0x0A, CHR 0x0A] text;
                text = replaceAllRe (reBlock ''style'') [] text;
                text = replaceAllRe (reBlock ''script'') [] text;
                text = replaceAllRe reTag [] text;
                text = replaceAllRe (reLiteralCI ''&nbsp;'') '' '' text;
                text = replaceAllRe (reLiteralCI ''&amp;'') ''&'' text;
                text = replaceAllRe (reLiteralCI ''&lt;'') ''<'' text;
                text = replaceAllRe (reLiteralCI ''&gt;'') ''>'' text;
                text = replaceAllRe (reLiteralCI ''&quot;'') [CHR 0x22] text;
                text = replaceAllRe (reLiteralCI ''&#39;'') [CHR 0x27] text;
                text = replaceAllRe (reLiteralCI ''&apos;'') [CHR 0x27] text;
                text = replaceAllRe reBlanks '' '' text;
                text = replaceAllRe reNewlineBlanks [CHR 0x0A] text;
                text = replaceAllRe reBlanksNewline [CHR 0x0A] text;
                text = replaceAllRe reNewlines3 [CHR 0x0A, CHR 0x0A] text
            in trimJS text))"

subsection \<open>Link extraction\<close>

record link =
  url :: string
  title :: string

definition isQuote :: "char \<Rightarrow> bool" where
  "isQuote c = (c = CHR 0x22 \<or> c = CHR 0x27)"

text \<open>
  The tail \<^verbatim>\<open>href=["']([^"']+)["'][^>]*>([^<]*)<\/a>\<close> of the anchor pattern, matched at
  the start of the given text: the length of the match and the two captures.
\<close>

definition matchHref :: "string \<Rightarrow> (nat \<times> string \<times> string) option" where
  "matchHref s =
     (if startsWithCI s ''href='' \<and> length s > 5 \<and> isQuote (s ! 5)
      then (let r1 = drop 6 s;
                u = takeWhile (\<lambda>x. \<not> isQuote x) r1;
                r2 = dropWhile (\<lambda>x. \<not> isQuote x) r1
            in if u = [] \<or> r2 = [] then None
               else (let r3 = tl r2;
                         attrs = takeWhile (\<lambda>x. x \<noteq> CHR ''>'') r3;
                         r4 = dropWhile (\<lambda>x. x \<noteq> CHR ''>'') r3
                     in if r4 = [] then None
                        else (let r5 = tl r4;
                                  txt = takeWhile (\<lambda>x. x \<noteq> CHR ''<'') r5;
                                  r6 = dropWhile (\<lambda>x. x \<noteq> CHR ''<'') r5
                              in if startsWithCI r6 ''</a>''
                                 then Some (6 + length u + 1 + length attrs + 1 + length txt + 4, u, txt)
                                 else None)))
      else None)"

fun firstSome :: "('a \<Rightarrow> 'b option) \<Rightarrow> 'a list \<Rightarrow> 'b option" where
  "firstSome f [] = None"
| "firstSome f (x # xs) = (case f x of Some y \<Rightarrow> Some y | None \<Rightarrow> firstSome f xs)"

text \<open>
  \<^verbatim>\<open>/<a\s+[^>]*href=["']([^"']+)["'][^>]*>([^<]*)<\/a>/gi\<close> at the start of the text.
  After \<^verbatim>\<open><a\<close> and the white space, the greedy \<^verbatim>\<open>[^>]*\<close> runs to the first \<^verbatim>\<open>>\<close> and
  backtracks: the tail is tried at every offset of that stretch, the longest first.
\<close>

definition matchAnchor :: "string \<Rightarrow> (nat \<times> string \<times> string) option" where
  "matchAnchor s =
     (if startsWithCI s ''<a''
      then (let r1 = drop 2 s;
                ws = takeWhile isSpaceJS r1;
                r2 = dropWhile isSpaceJS r1;
                n = length (takeWhile (\<lambda>x. x \<noteq> CHR ''>'') r2)
            in if ws = [] then None
               else firstSome
                      (\<lambda>k. case matchHref (drop k r2) of
                              None \<Rightarrow> None
                            | Some (len, u, txt) \<Rightarrow> Some (2 + length ws + k + len, u, txt))
                      (rev [0..<Suc n]))
      else None)"

text \<open>
  The \<^verbatim>\<open>while ((match = anchorRegex.exec(html)) !== null)\<close> loop: the successive matches
  of the pattern, each as (capture 1, capture 2).  The counter is as in \<open>replaceFrom\<close>.
\<close>

fun anchorsFrom :: "nat \<Rightarrow> string \<Rightarrow> (string \<times> string) list" where
  "anchorsFrom k [] = []"
| "anchorsFrom (Suc k) (c # cs) = anchorsFrom k cs"
| "anchorsFrom 0 (c # cs) =
     (case matchAnchor (c # cs) of
        Some (Suc n, u, txt) \<Rightarrow> (u, txt) # anchorsFrom n cs
      | _ \<Rightarrow> anchorsFrom 0 cs)"

definition anchorMatches :: "string \<Rightarrow> (string \<times> string) list" where
  "anchorMatches html = anchorsFrom 0 html"

text \<open>\<^verbatim>\<open>extractLinksFromHtml\<close> of \<^verbatim>\<open>server/services/emailProcessor.js\<close>: the loop body,
  folded over the matches with the list of links built so far.\<close>

definition skippedScheme :: "string \<Rightarrow> bool" where
  "skippedScheme u =
     (startsWith u ''mailto:'' \<or> startsWith u ''tel:'' \<or> startsWith u ''javascript:'' \<or>
      startsWith u ''data:'' \<or> startsWith u ''#'')"

fun extractLinks_processor_loop :: "link list \<Rightarrow> (string \<times> string) list \<Rightarrow> link list" where
  "extractLinks_processor_loop links [] = links"
| "extractLinks_processor_loop links ((u, txt) # ms) =
     (let text = trimJS txt in
      if skippedScheme u then extractLinks_processor_loop links ms
      else (let lowerUrl = toLowerCaseJS u in
            if includesJS lowerUrl ''unsubscribe'' \<or> includesJS lowerUrl ''tracking''
            then extractLinks_processor_loop links ms
            else (let title = (if text \<noteq> [] then text else take 50 u) in
                  if \<not> list_ex (\<lambda>l. url l = u) links \<and> length u \<le> 2000
                  then extractLinks_processor_loop (links @ [\<lparr> url = u, title = take 255 title \<rparr>]) ms
                  else extractLinks_processor_loop links ms)))"

definition extractLinksFromHtml_processor :: "string \<Rightarrow> link list" where
  "extractLinksFromHtml_processor html =
     (if html = [] then [] else extractLinks_processor_loop [] (anchorMatches html))"

text \<open>
  \<^verbatim>\<open>extractLinksFromHtml\<close> of the email-inbox routes.  \<^verbatim>\<open>new URL(url).hostname\<close> belongs
  to the platform: \<open>hostname\<close> is taken as a parameter, \<open>None\<close> when the constructor throws.
\<close>

fun extractLinks_route_loop ::
  "(string \<Rightarrow> string option) \<Rightarrow> link list \<Rightarrow> (string \<times> string) list \<Rightarrow> link list" where
  "extractLinks_route_loop hostname links [] = links"
| "extractLinks_route_loop hostname links ((u, txt) # ms) =
     (let text = trimJS txt in
      if skippedScheme u then extractLinks_route_loop hostname links ms
      else (let lowerUrl = toLowerCaseJS u in
            if includesJS lowerUrl ''unsubscribe'' \<or> includesJS lowerUrl ''tracking'' \<or>
               includesJS lowerUrl ''click.'' \<or> includesJS lowerUrl ''emailtracking''
            then extractLinks_route_loop hostname links ms
            else (let title = (if text \<noteq> [] then text
                               else (case hostname u of Some h \<Rightarrow> h | None \<Rightarrow> take 50 u)) in
                  if \<not> list_ex (\<lambda>l. url l = u) links
                  then extractLinks_route_loop hostname (links @ [\<lparr> url = u, title = take 255 title \<rparr>]) ms
                  else extractLinks_route_loop hostname links ms)))"

definition extractLinksFromHtml_route :: "(string \<Rightarrow> string option) \<Rightarrow> string \<Rightarrow> link list" where
  "extractLinksFromHtml_route hostname html =
     (if html = [] then [] else extractLinks_route_loop hostname [] (anchorMatches html))"

section \<open>Data model\<close>

text \<open>A message as returned by \<^verbatim>\<open>fetchInboxEmails\<close>.\<close>

record email =
  email_id :: string
  subject :: string
  fromAddress :: string
  fromName :: string
  receivedAt :: string
  bodyPreview :: string
  body :: string
  isRead :: bool
  hasAttachments :: bool

text \<open>
  The \<^verbatim>\<open>config\<close> column of a module holds JSON text.  \<^verbatim>\<open>JSON.parse\<close> belongs to the
  platform, so the column is modelled by what the code can observe of it: it is empty
  (falsy, so \<^verbatim>\<open>{}\<close> is used), it does not parse, it parses to \<^verbatim>\<open>null\<close> (property access
  throws), or it parses to a value whose properties \<^verbatim>\<open>enableEmailInbox\<close> and
  \<^verbatim>\<open>autoProcessEmails\<close> are truthy or not.
\<close>

datatype config_text = ConfigEmpty | ConfigInvalid | ConfigNull | ConfigValue bool bool

record module_row =
  m_id :: nat
  m_name :: string
  m_display_name :: string
  m_config :: config_text
  m_is_active :: bool

record record_data =
  description :: string
  email_from :: string
  email_from_name :: string
  email_subject :: string
  email_received_at :: string

record module_record =
  record_id :: nat
  record_module_id :: nat
  record_name :: string
  record_status :: string
  data :: record_data
  created_by :: string
  updated_by :: string

text \<open>A row of the \<^verbatim>\<open>processed_emails\<close> ledger.\<close>

record processed_email =
  pe_email_id :: string
  pe_module_id :: "nat option"
  pe_record_id :: "nat option"
  pe_from_address :: string
  pe_from_name :: string
  pe_subject :: string
  pe_body_preview :: string
  pe_received_at :: "string option"
  pe_status :: string
  pe_error_message :: "string option"

record history_row =
  rh_record_id :: nat
  rh_module_id :: nat
  rh_action :: string
  rh_description :: string
  rh_changed_by :: string
  rh_user_email :: string

record image_row =
  ri_record_id :: nat
  ri_module_id :: nat
  ri_image_path :: string
  ri_created_by :: string

record document_row =
  rd_record_id :: nat
  rd_module_id :: nat
  rd_file_path :: string
  rd_file_name :: string
  rd_file_type :: string
  rd_file_size :: nat
  rd_created_by :: string

record link_row =
  rl_record_id :: nat
  rl_module_id :: nat
  rl_url :: string
  rl_title :: string
  rl_description :: string

record attachment =
  att_id :: string
  att_name :: string
  att_contentType :: string
  att_size :: nat
  att_isInline :: bool

text \<open>An auto-response handed to the mail sender.\<close>

record sent_mail =
  sm_to :: string
  sm_module :: string
  sm_record_id :: nat
  sm_original_subject :: string

text \<open>
  The state the pipeline reads and writes: the tables of the relational store (with the
  auto-increment counter of \<^verbatim>\<open>module_records\<close>), the remote mailbox, the number of
  \<^verbatim>\<open>fetchInboxEmails\<close> calls made, the auto-responses sent, and the module-level variables
  \<^verbatim>\<open>isProcessing\<close> and \<^verbatim>\<open>debugLogging\<close> of the processor.
\<close>

record world =
  modules :: "module_row list"
  module_records :: "module_record list"
  last_record_id :: nat
  processed_emails :: "processed_email list"
  record_history :: "history_row list"
  record_images :: "image_row list"
  record_documents :: "document_row list"
  record_links :: "link_row list"
  mailbox :: "email list"
  fetch_calls :: nat
  outbox :: "sent_mail list"
  isProcessing :: bool
  debugLogging :: bool

text \<open>
  What the collaborators do in one run: which calls fail, and the data that comes from
  outside the program.  Every theorem below holds for every such environment.
\<close>

record env =
  debug_setting :: "bool option"
  modules_query_fails :: bool
  fetch_ok :: bool
  ledger_lookup_fails :: "string \<Rightarrow> bool"
  module_lookup_fails :: "string \<Rightarrow> bool"
  insert_record_fails :: "email \<Rightarrow> bool"
  insert_ledger_fails :: "string \<Rightarrow> bool"
  uploadsDir :: bool
  list_attachments :: "string \<Rightarrow> attachment list option"
  download_ok :: "string \<Rightarrow> attachment \<Rightarrow> bool"
  store_attachment_fails :: "string \<Rightarrow> attachment \<Rightarrow> bool"
  random_hex :: "attachment \<Rightarrow> string"
  insert_link_fails :: "string \<Rightarrow> bool"
  insert_history_fails :: "string \<Rightarrow> bool"
  send_ok :: "string \<Rightarrow> bool"
  insert_sent_history_fails :: "string \<Rightarrow> bool"
  mark_read_ok :: "string \<Rightarrow> bool"
  hostname :: "string \<Rightarrow> string option"
  iso_date :: "string \<Rightarrow> string option"
  request_user :: "string option"

section \<open>Helpers of the pipeline\<close>

definition digitChar :: "nat \<Rightarrow> char" where
  "digitChar n = ''0123456789'' ! (n mod 10)"

text \<open>A number inside a template literal: its decimal digits.\<close>

fun showNat :: "nat \<Rightarrow> string" where
  "showNat n = (if n < 10 then [digitChar n] else showNat (n div 10) @ [digitChar n])"

text \<open>\<^verbatim>\<open>parts.join(', ')\<close>\<close>

fun joinComma :: "string list \<Rightarrow> string" where
  "joinComma [] = []"
| "joinComma [p] = p"
| "joinComma (p # q # ps) = p @ '', '' @ joinComma (q # ps)"

text \<open>\<^verbatim>\<open>s.replace('T', ' ')\<close>: the first occurrence only.\<close>

fun replaceFirstT :: "string \<Rightarrow> string" where
  "replaceFirstT [] = []"
| "replaceFirstT (c # cs) = (if c = CHR ''T'' then CHR '' '' # cs else c # replaceFirstT cs)"

text \<open>
  \<^verbatim>\<open>toMySQLDatetime\<close>.  \<^verbatim>\<open>new Date(isoString).toISOString()\<close> belongs to the platform:
  \<open>iso_date\<close> gives its result, \<open>None\<close> when it throws.
\<close>

definition toMySQLDatetime :: "env \<Rightarrow> string \<Rightarrow> string option" where
  "toMySQLDatetime ev isoString =
     (if isoString = [] then None
      else (case iso_date ev isoString of
              None \<Rightarrow> None
            | Some isoText \<Rightarrow> Some (replaceFirstT (take 19 isoText))))"

text \<open>\<^verbatim>\<open>generateUniqueFilename\<close>, the random bytes taken from the environment.\<close>

definition generateUniqueFilename :: "string \<Rightarrow> string \<Rightarrow> string" where
  "generateUniqueFilename uniqueId originalName =
     (let hasDot = (CHR ''.'' \<in> set originalName);
          ext = (if hasDot then rev (takeWhile (\<lambda>x. x \<noteq> CHR ''.'') (rev originalName)) else []);
          baseName = (if hasDot then rev (tl (dropWhile (\<lambda>x. x \<noteq> CHR ''.'') (rev originalName)))
                      else originalName)
      in if ext \<noteq> [] then baseName @ ''-'' @ uniqueId @ ''.'' @ ext
         else baseName @ ''-'' @ uniqueId)"

text \<open>\<^verbatim>\<open>isImageContentType\<close>\<close>

definition isImageContentType :: "string \<Rightarrow> bool" where
  "isImageContentType contentType = (contentType \<noteq> [] \<and> startsWith contentType ''image/'')"

text \<open>
  \<^verbatim>\<open>fetchInboxEmails({ maxResults, unreadOnly })\<close>: the call is counted; on success the
  first \<open>maxResults\<close> messages of the mailbox, the read ones left out when \<open>unreadOnly\<close>.
\<close>

definition fetchInboxEmails :: "env \<Rightarrow> world \<Rightarrow> nat \<Rightarrow> bool \<Rightarrow> email list option \<times> world" where
  "fetchInboxEmails ev w maxResults unreadOnly =
     ((if fetch_ok ev
       then Some (take maxResults (filter (\<lambda>e. if unreadOnly then \<not> isRead e else True) (mailbox w)))
       else None),
      w\<lparr> fetch_calls := Suc (fetch_calls w) \<rparr>)"

text \<open>\<^verbatim>\<open>markEmailAsRead\<close>: a failed call is reported in the result, which no caller reads.\<close>

definition markEmailAsRead :: "env \<Rightarrow> world \<Rightarrow> string \<Rightarrow> world" where
  "markEmailAsRead ev w emailId =
     (if mark_read_ok ev emailId
      then w\<lparr> mailbox := map (\<lambda>e. if email_id e = emailId then e\<lparr> isRead := True \<rparr> else e) (mailbox w) \<rparr>
      else w)"

text \<open>\<^verbatim>\<open>SELECT id FROM processed_emails WHERE email_id = ?\<close>\<close>

definition ledger_has :: "world \<Rightarrow> string \<Rightarrow> bool" where
  "ledger_has w emailId = list_ex (\<lambda>r. pe_email_id r = emailId) (processed_emails w)"

text \<open>
  \<^verbatim>\<open>INSERT INTO processed_emails\<close>: \<open>None\<close> when the statement throws, which it also does
  when the \<^verbatim>\<open>UNIQUE\<close> constraint on \<^verbatim>\<open>email_id\<close> is violated.
\<close>

definition insert_processed_email :: "env \<Rightarrow> world \<Rightarrow> processed_email \<Rightarrow> world option" where
  "insert_processed_email ev w row =
     (if insert_ledger_fails ev (pe_email_id row) \<or> ledger_has w (pe_email_id row) then None
      else Some (w\<lparr> processed_emails := processed_emails w @ [row] \<rparr>))"

text \<open>\<^verbatim>\<open>SELECT id, name, config FROM modules WHERE LOWER(name) = LOWER(?) AND is_active = 1\<close>\<close>

definition find_module :: "world \<Rightarrow> string \<Rightarrow> module_row option" where
  "find_module w nm =
     List.find (\<lambda>m. toLowerCaseJS (m_name m) = toLowerCaseJS nm \<and> m_is_active m) (modules w)"

text \<open>
  \<^verbatim>\<open>saveAttachments\<close> (processor) and \<^verbatim>\<open>saveEmailAttachments\<close> (routes) are the same code up
  to logging.  The loop over the attachments carries the two counters; a failed download
  skips the attachment, an exception while storing it is caught.
\<close>

fun saveAttachments_loop ::
  "env \<Rightarrow> string \<Rightarrow> nat \<Rightarrow> nat \<Rightarrow> string \<Rightarrow> attachment list \<Rightarrow> (nat \<times> nat) \<times> world \<Rightarrow> (nat \<times> nat) \<times> world" where
  "saveAttachments_loop ev emailId recordId moduleId userEmail [] acc = acc"
| "saveAttachments_loop ev emailId recordId moduleId userEmail (a # as) ((imageCount, documentCount), w) =
     (if \<not> download_ok ev emailId a
      then saveAttachments_loop ev emailId recordId moduleId userEmail as ((imageCount, documentCount), w)
      else (let uniqueFilename = generateUniqueFilename (random_hex ev a) (att_name a);
                isImage = isImageContentType (att_contentType a);
                subDir = (if isImage then ''images'' else ''documents'');
                relativePath = ''/uploads/'' @ subDir @ ''/'' @ uniqueFilename
            in if store_attachment_fails ev emailId a
               then saveAttachments_loop ev emailId recordId moduleId userEmail as ((imageCount, documentCount), w)
               else if isImage
               then saveAttachments_loop ev emailId recordId moduleId userEmail as
                      ((Suc imageCount, documentCount),
                       w\<lparr> record_images := record_images w @
                            [\<lparr> ri_record_id = recordId, ri_module_id = moduleId,
                               ri_image_path = relativePath, ri_created_by = userEmail \<rparr>] \<rparr>)
               else saveAttachments_loop ev emailId recordId moduleId userEmail as
                      ((imageCount, Suc documentCount),
                       w\<lparr> record_documents := record_documents w @
                            [\<lparr> rd_record_id = recordId, rd_module_id = moduleId,
                               rd_file_path = relativePath, rd_file_name = att_name a,
                               rd_file_type = att_contentType a, rd_file_size = att_size a,
                               rd_created_by = userEmail \<rparr>] \<rparr>)))"

definition saveAttachments ::
  "env \<Rightarrow> world \<Rightarrow> string \<Rightarrow> nat \<Rightarrow> nat \<Rightarrow> string \<Rightarrow> (nat \<times> nat) \<times> world" where
  "saveAttachments ev w emailId recordId moduleId userEmail =
     (case list_attachments ev emailId of
        None \<Rightarrow> ((0, 0), w)
      | Some atts \<Rightarrow>
          if atts = [] then ((0, 0), w)
          else saveAttachments_loop ev emailId recordId moduleId userEmail atts ((0, 0), w))"

text \<open>The insert loop of \<^verbatim>\<open>saveLinks\<close> (processor): a failed insert is ignored.\<close>

fun saveLinks_loop :: "env \<Rightarrow> nat \<Rightarrow> nat \<Rightarrow> link list \<Rightarrow> nat \<times> world \<Rightarrow> nat \<times> world" where
  "saveLinks_loop ev recordId moduleId [] acc = acc"
| "saveLinks_loop ev recordId moduleId (l # ls) (savedCount, w) =
     (if insert_link_fails ev (url l)
      then saveLinks_loop ev recordId moduleId ls (savedCount, w)
      else saveLinks_loop ev recordId moduleId ls
             (Suc savedCount,
              w\<lparr> record_links := record_links w @
                   [\<lparr> rl_record_id = recordId, rl_module_id = moduleId, rl_url = url l,
                      rl_title = title l, rl_description = ''Extracted from email'' \<rparr>] \<rparr>))"

definition saveLinks :: "env \<Rightarrow> world \<Rightarrow> nat \<Rightarrow> nat \<Rightarrow> string \<Rightarrow> nat \<times> world" where
  "saveLinks ev w recordId moduleId html =
     saveLinks_loop ev recordId moduleId (extractLinksFromHtml_processor html) (0, w)"

text \<open>The insert loop of \<^verbatim>\<open>saveEmailLinks\<close> (routes): a URL over 2000 characters is
  skipped, a failed insert is caught.\<close>

fun saveEmailLinks_loop :: "env \<Rightarrow> nat \<Rightarrow> nat \<Rightarrow> link list \<Rightarrow> nat \<times> world \<Rightarrow> nat \<times> world" where
  "saveEmailLinks_loop ev recordId moduleId [] acc = acc"
| "saveEmailLinks_loop ev recordId moduleId (l # ls) (savedCount, w) =
     (if length (url l) > 2000
      then saveEmailLinks_loop ev recordId moduleId ls (savedCount, w)
      else if insert_link_fails ev (url l)
      then saveEmailLinks_loop ev recordId moduleId ls (savedCount, w)
      else saveEmailLinks_loop ev recordId moduleId ls
             (Suc savedCount,
              w\<lparr> record_links := record_links w @
                   [\<lparr> rl_record_id = recordId, rl_module_id = moduleId, rl_url = url l,
                      rl_title = take 255 (title l), rl_description = ''Extracted from email'' \<rparr>] \<rparr>))"

definition saveEmailLinks :: "env \<Rightarrow> world \<Rightarrow> nat \<Rightarrow> nat \<Rightarrow> string \<Rightarrow> nat \<times> world" where
  "saveEmailLinks ev w recordId moduleId html =
     (let links = extractLinksFromHtml_route (hostname ev) html
      in if links = [] then (0, w)
         else saveEmailLinks_loop ev recordId moduleId links (0, w))"

section \<open>Ingestion engine\<close>

text \<open>
  The record-creation pipeline is written out three times in the source: in
  \<^verbatim>\<open>processEmails\<close> (the scheduled pass), in \<^verbatim>\<open>POST /process\<close> (the manual bulk pass) and
  in \<^verbatim>\<open>POST /process-single/:emailId\<close>.  The three copies differ in the HTML converter
  and link saver they call, in the text of the history entry and in the user the history
  entry is attributed to; \<open>variant\<close> selects among them.
\<close>

datatype variant = Auto | Bulk | Single

definition htmlToPlainText :: "variant \<Rightarrow> string \<Rightarrow> string" where
  "htmlToPlainText v html =
     (case v of Auto \<Rightarrow> htmlToPlainText_processor html | _ \<Rightarrow> htmlToPlainText_route html)"

definition saveLinksFor :: "variant \<Rightarrow> env \<Rightarrow> world \<Rightarrow> nat \<Rightarrow> nat \<Rightarrow> string \<Rightarrow> nat \<times> world" where
  "saveLinksFor v ev w recordId moduleId html =
     (case v of Auto \<Rightarrow> saveLinks ev w recordId moduleId html
              | _ \<Rightarrow> saveEmailLinks ev w recordId moduleId html)"

definition historyPrefix :: "variant \<Rightarrow> string" where
  "historyPrefix v =
     (case v of Auto \<Rightarrow> ''Record created from email (auto)''
              | Bulk \<Rightarrow> ''Record created from email''
              | Single \<Rightarrow> ''Record created from email (manual)'')"

definition historyParts :: "nat \<Rightarrow> nat \<Rightarrow> nat \<Rightarrow> string list" where
  "historyParts images documents linkCount =
     (if images + documents > 0
      then [showNat images @ '' image(s) and '' @ showNat documents @ '' document(s)'']
      else []) @
     (if linkCount > 0 then [showNat linkCount @ '' link(s)''] else [])"

definition historyDesc :: "variant \<Rightarrow> nat \<Rightarrow> nat \<Rightarrow> nat \<Rightarrow> string" where
  "historyDesc v images documents linkCount =
     (let parts = historyParts images documents linkCount
      in if length parts > 0 then historyPrefix v @ '' with '' @ joinComma parts
         else historyPrefix v)"

definition historyUser :: "variant \<Rightarrow> env \<Rightarrow> email \<Rightarrow> string" where
  "historyUser v ev e =
     (case v of
        Single \<Rightarrow> (case request_user ev of Some u \<Rightarrow> (if u \<noteq> [] then u else ''system'')
                                            | None \<Rightarrow> ''system'')
      | _ \<Rightarrow> fromAddress e)"

text \<open>
  Record creation and everything after it, for one message and its resolved module, in
  three stages that follow the source from its last statement backwards.  The result is
  the id of the created record, or \<open>None\<close> when a statement threw; the world returned
  holds the effects made up to that point, since the store has no transaction.

  \<open>ingest_finish\<close>: the history entry, the auto-response with its own history entry, and
  the read mark.
\<close>

definition ingest_finish ::
  "variant \<Rightarrow> env \<Rightarrow> world \<Rightarrow> email \<Rightarrow> module_row \<Rightarrow> string \<Rightarrow> nat \<Rightarrow> nat \<times> nat \<Rightarrow> nat \<Rightarrow>
   nat option \<times> world" where
  "ingest_finish v ev w e md cleanSubj recordId attachmentCounts linkCount =
     (if insert_history_fails ev (email_id e) then (None, w)
      else
       (let w5 = w\<lparr> record_history := record_history w @
                      [\<lparr> rh_record_id = recordId, rh_module_id = m_id md,
                         rh_action = ''created'',
                         rh_description =
                           historyDesc v (fst attachmentCounts) (snd attachmentCounts) linkCount,
                         rh_changed_by = historyUser v ev e,
                         rh_user_email = historyUser v ev e \<rparr>] \<rparr>;
            success = send_ok ev (email_id e);
            w6 = (if success
                  then w5\<lparr> outbox := outbox w5 @
                             [\<lparr> sm_to = fromAddress e,
                                sm_module = toUpperCaseJS (m_name md),
                                sm_record_id = recordId,
                                sm_original_subject =
                                  (if cleanSubj \<noteq> [] then cleanSubj else subject e) \<rparr>] \<rparr>
                  else w5)
        in if success \<and> insert_sent_history_fails ev (email_id e) then (None, w6)
           else
            (let w7 = (if success
                       then w6\<lparr> record_history := record_history w6 @
                                  [\<lparr> rh_record_id = recordId, rh_module_id = m_id md,
                                     rh_action = ''email_sent'',
                                     rh_description =
                                       ''Auto-response email sent to '' @ fromAddress e,
                                     rh_changed_by = ''system'',
                                     rh_user_email = ''system'' \<rparr>] \<rparr>
                       else w6)
             in (Some recordId, markEmailAsRead ev w7 (email_id e)))))"

text \<open>\<open>ingest_materialize\<close>: the attachments (when an upload directory is configured) and
  the links, then the rest.\<close>

definition ingest_materialize ::
  "variant \<Rightarrow> env \<Rightarrow> world \<Rightarrow> email \<Rightarrow> module_row \<Rightarrow> string \<Rightarrow> nat \<Rightarrow> nat option \<times> world" where
  "ingest_materialize v ev w e md cleanSubj recordId =
     (let (attachmentCounts, w3) =
            (if uploadsDir ev
             then saveAttachments ev w (email_id e) recordId (m_id md) (fromAddress e)
             else ((0, 0), w));
          (linkCount, w4) = saveLinksFor v ev w3 recordId (m_id md) (body e)
      in ingest_finish v ev w4 e md cleanSubj recordId attachmentCounts linkCount)"

text \<open>\<open>ingestEmail\<close>: the record, then the ledger row, then the rest.\<close>

definition ingestEmail ::
  "variant \<Rightarrow> env \<Rightarrow> world \<Rightarrow> email \<Rightarrow> module_row \<Rightarrow> string \<Rightarrow> nat option \<times> world" where
  "ingestEmail v ev w e md cleanSubj =
     (let emailBodyPlainText = htmlToPlainText v (if body e \<noteq> [] then body e else bodyPreview e);
          recordData = \<lparr> description = emailBodyPlainText, email_from = fromAddress e,
                         email_from_name = fromName e, email_subject = cleanSubj,
                         email_received_at = receivedAt e \<rparr>
      in if insert_record_fails ev e then (None, w)
         else
          (let recordId = Suc (last_record_id w);
               w1 = w\<lparr> module_records := module_records w @
                         [\<lparr> record_id = recordId, record_module_id = m_id md,
                            record_name = (if cleanSubj \<noteq> [] then cleanSubj else ''Email''),
                            record_status = ''active'', data = recordData,
                            created_by = fromAddress e, updated_by = fromAddress e \<rparr>],
                       last_record_id := recordId \<rparr>
           in case insert_processed_email ev w1
                     \<lparr> pe_email_id = email_id e, pe_module_id = Some (m_id md),
                        pe_record_id = Some recordId, pe_from_address = fromAddress e,
                        pe_from_name = fromName e, pe_subject = subject e,
                        pe_body_preview = bodyPreview e,
                        pe_received_at = toMySQLDatetime ev (receivedAt e),
                        pe_status = ''processed'', pe_error_message = None \<rparr> of
                None \<Rightarrow> (None, w1)
              | Some w2 \<Rightarrow> ingest_materialize v ev w2 e md cleanSubj recordId))"

text \<open>What became of one message in a pass.  \<open>Failed\<close>: an exception caught for this
  message alone; \<open>Aborted\<close>: an exception that ends the whole pass.\<close>

datatype outcome =
  AlreadyProcessed | NoTag | NoModule | InboxDisabled | Processed nat | Failed | Aborted

subsection \<open>The scheduled pass: \<^verbatim>\<open>processEmails\<close>\<close>

text \<open>\<^verbatim>\<open>config.enableEmailInbox && config.autoProcessEmails\<close>, \<open>false\<close> on any exception.\<close>

fun autoProcessEnabled :: "config_text \<Rightarrow> bool" where
  "autoProcessEnabled (ConfigValue enableEmailInbox autoProcessEmails) =
     (enableEmailInbox \<and> autoProcessEmails)"
| "autoProcessEnabled _ = False"

definition autoProcessModules :: "world \<Rightarrow> module_row list" where
  "autoProcessModules w =
     filter (\<lambda>m. autoProcessEnabled (m_config m)) (filter m_is_active (modules w))"

text \<open>The body of the \<^verbatim>\<open>for (const email of result.emails)\<close> loop.\<close>

definition processEmails_message :: "env \<Rightarrow> module_row list \<Rightarrow> world \<Rightarrow> email \<Rightarrow> outcome \<times> world" where
  "processEmails_message ev mods w e =
     (if ledger_lookup_fails ev (email_id e) then (Aborted, w)
      else if ledger_has w (email_id e) then (AlreadyProcessed, w)
      else (let parsed = parseModuleTagFromSubject (subject e)
            in if \<not> truthyStr (moduleName parsed) then (NoTag, w)
               else (case List.find (\<lambda>m. toLowerCaseJS (m_name m) =
                                           toLowerCaseJS (the (moduleName parsed))) mods of
                       None \<Rightarrow> (NoModule, w)
                     | Some md \<Rightarrow>
                         (case ingestEmail Auto ev w e md (cleanSubject parsed) of
                            (Some recordId, w') \<Rightarrow> (Processed recordId, w')
                          | (None, w') \<Rightarrow> (Failed, w')))))"

fun processEmails_loop :: "env \<Rightarrow> module_row list \<Rightarrow> world \<Rightarrow> email list \<Rightarrow> world" where
  "processEmails_loop ev mods w [] = w"
| "processEmails_loop ev mods w (e # es) =
     (case processEmails_message ev mods w e of
        (Aborted, w') \<Rightarrow> w'
      | (_, w') \<Rightarrow> processEmails_loop ev mods w' es)"

text \<open>\<^verbatim>\<open>loadDebugSetting\<close>: a failed query switches debug logging off.\<close>

definition loadDebugSetting :: "env \<Rightarrow> world \<Rightarrow> world" where
  "loadDebugSetting ev w = w\<lparr> debugLogging := (debug_setting ev = Some True) \<rparr>"

text \<open>The \<^verbatim>\<open>try\<close> block of \<^verbatim>\<open>processEmails\<close> with its \<^verbatim>\<open>catch\<close>.\<close>

definition processEmails_try :: "env \<Rightarrow> world \<Rightarrow> world" where
  "processEmails_try ev w =
     (if modules_query_fails ev then w
      else (let mods = autoProcessModules w
            in if length mods = 0 then w\<lparr> isProcessing := False \<rparr>
               else (case fetchInboxEmails ev w 50 True of
                       (None, w') \<Rightarrow> w'\<lparr> isProcessing := False \<rparr>
                     | (Some emails, w') \<Rightarrow> processEmails_loop ev mods w' emails)))"

text \<open>
  \<^verbatim>\<open>processEmails\<close> is an \<^verbatim>\<open>async\<close> function: at each \<^verbatim>\<open>await\<close> it is suspended and other
  code of the process runs, a timer tick that calls \<^verbatim>\<open>processEmails\<close> again included.  The
  functions below list the worlds of one invocation in order: every element but the last
  is the world in which the invocation is suspended at an \<^verbatim>\<open>await\<close> of its own, the last
  element is the world in which it is done.

  The loop: suspended at \<^verbatim>\<open>await db.get\<close> before each message, done after the last one or
  after the exception that ends the pass.
\<close>

fun processEmails_loop_states :: "env \<Rightarrow> module_row list \<Rightarrow> world \<Rightarrow> email list \<Rightarrow> world list" where
  "processEmails_loop_states ev mods w [] = [w]"
| "processEmails_loop_states ev mods w (e # es) =
     w # (case processEmails_message ev mods w e of
            (Aborted, w') \<Rightarrow> [w']
          | (_, w') \<Rightarrow> processEmails_loop_states ev mods w' es)"

text \<open>The \<^verbatim>\<open>try\<close> block with its \<^verbatim>\<open>catch\<close>: suspended at \<^verbatim>\<open>await db.all\<close> and
  \<^verbatim>\<open>await fetchInboxEmails\<close> in the world it was entered with, then in the loop.\<close>

definition processEmails_try_states :: "env \<Rightarrow> world \<Rightarrow> world list" where
  "processEmails_try_states ev w =
     (if modules_query_fails ev then [w, w]
      else (let mods = autoProcessModules w
            in if length mods = 0 then [w, w\<lparr> isProcessing := False \<rparr>]
               else (case fetchInboxEmails ev w 50 True of
                       (None, w') \<Rightarrow> [w, w'\<lparr> isProcessing := False \<rparr>]
                     | (Some emails, w') \<Rightarrow> w # processEmails_loop_states ev mods w' emails)))"

text \<open>
  The whole function.  When the guard finds \<^verbatim>\<open>isProcessing\<close> set, the invocation is done
  at once.  Otherwise \<^verbatim>\<open>isProcessing = true\<close> is executed, the \<^verbatim>\<open>try\<close> block runs, and the
  \<^verbatim>\<open>finally\<close> block clears the flag in the world in which the \<^verbatim>\<open>try\<close> block ended.
\<close>

definition processEmails_states :: "env \<Rightarrow> world \<Rightarrow> world list" where
  "processEmails_states ev w =
     (let w1 = loadDebugSetting ev w
      in if isProcessing w1 then [w1]
         else (let tryStates = processEmails_try_states ev (w1\<lparr> isProcessing := True \<rparr>)
               in butlast tryStates @ [(last tryStates)\<lparr> isProcessing := False \<rparr>]))"

text \<open>\<^verbatim>\<open>processEmails\<close>: the world in which the invocation is done.\<close>

definition processEmails :: "env \<Rightarrow> world \<Rightarrow> world" where
  "processEmails ev w = last (processEmails_states ev w)"

subsection \<open>The manual bulk pass: \<^verbatim>\<open>POST /process\<close>\<close>

text \<open>\<^verbatim>\<open>!config.enableEmailInbox\<close> after the guarded parse: \<open>None\<close> when the property access
  throws (the text parsed to \<^verbatim>\<open>null\<close>).\<close>

fun inboxDisabled :: "config_text \<Rightarrow> bool option" where
  "inboxDisabled ConfigEmpty = Some True"
| "inboxDisabled ConfigInvalid = Some True"
| "inboxDisabled ConfigNull = None"
| "inboxDisabled (ConfigValue enableEmailInbox autoProcessEmails) = Some (\<not> enableEmailInbox)"

definition ledgerRow ::
  "env \<Rightarrow> email \<Rightarrow> nat option \<Rightarrow> string \<Rightarrow> string \<Rightarrow> processed_email" where
  "ledgerRow ev e moduleId status errorMessage =
     \<lparr> pe_email_id = email_id e, pe_module_id = moduleId, pe_record_id = None,
       pe_from_address = fromAddress e, pe_from_name = fromName e, pe_subject = subject e,
       pe_body_preview = bodyPreview e, pe_received_at = toMySQLDatetime ev (receivedAt e),
       pe_status = status, pe_error_message = Some errorMessage \<rparr>"

text \<open>The body of the loop of the handler.  Nothing is caught per message: an exception
  ends the request.\<close>

definition route_process_message :: "env \<Rightarrow> world \<Rightarrow> email \<Rightarrow> outcome \<times> world" where
  "route_process_message ev w e =
     (if ledger_lookup_fails ev (email_id e) then (Aborted, w)
      else if ledger_has w (email_id e) then (AlreadyProcessed, w)
      else (let parsed = parseModuleTagFromSubject (subject e)
            in if \<not> truthyStr (moduleName parsed)
               then (case insert_processed_email ev w
                            (ledgerRow ev e None ''skipped'' ''No module tag in subject'') of
                       None \<Rightarrow> (Aborted, w)
                     | Some w' \<Rightarrow> (NoTag, w'))
               else if module_lookup_fails ev (the (moduleName parsed)) then (Aborted, w)
               else (case find_module w (the (moduleName parsed)) of
                       None \<Rightarrow>
                         (case insert_processed_email ev w
                                 (ledgerRow ev e None ''error''
                                    (''Module '' @ [CHR 0x27] @ the (moduleName parsed) @ [CHR 0x27] @
                                     '' not found'')) of
                            None \<Rightarrow> (Aborted, w)
                          | Some w' \<Rightarrow> (NoModule, w'))
                     | Some md \<Rightarrow>
                         (case inboxDisabled (m_config md) of
                            None \<Rightarrow> (Aborted, w)
                          | Some True \<Rightarrow>
                              (case insert_processed_email ev w
                                      (ledgerRow ev e (Some (m_id md)) ''skipped''
                                         ''Email inbox not enabled for module'') of
                                 None \<Rightarrow> (Aborted, w)
                               | Some w' \<Rightarrow> (InboxDisabled, w'))
                          | Some False \<Rightarrow>
                              (case ingestEmail Bulk ev w e md (cleanSubject parsed) of
                                 (Some recordId, w') \<Rightarrow> (Processed recordId, w')
                               | (None, w') \<Rightarrow> (Aborted, w'))))))"

text \<open>The loop: the outcomes stand for the \<^verbatim>\<open>processed\<close>, \<^verbatim>\<open>skipped\<close> and \<^verbatim>\<open>errors\<close>
  arrays of the response, in the order of the messages.\<close>

fun route_process_loop ::
  "env \<Rightarrow> world \<Rightarrow> email list \<Rightarrow> (string \<times> outcome) list \<Rightarrow> (string \<times> outcome) list option \<times> world" where
  "route_process_loop ev w [] acc = (Some acc, w)"
| "route_process_loop ev w (e # es) acc =
     (case route_process_message ev w e of
        (Aborted, w') \<Rightarrow> (None, w')
      | (out, w') \<Rightarrow> route_process_loop ev w' es (acc @ [(email_id e, out)]))"

text \<open>The HTTP response: a status with its error text (the text of a failed fetch comes
  from the mail provider and is left abstract), the summary of a bulk pass, or the record
  and module ids of a single message processed.\<close>

datatype response =
  ErrorStatus nat string
| ProcessSummary "(string \<times> outcome) list"
| SingleResult nat nat

definition route_process :: "env \<Rightarrow> world \<Rightarrow> response \<times> world" where
  "route_process ev w =
     (case fetchInboxEmails ev w 50 True of
        (None, w') \<Rightarrow> (ErrorStatus 400 ''fetch failed'', w')
      | (Some emails, w') \<Rightarrow>
          (case route_process_loop ev w' emails [] of
             (None, w'') \<Rightarrow> (ErrorStatus 500 ''Failed to process emails'', w'')
           | (Some summary, w'') \<Rightarrow> (ProcessSummary summary, w'')))"

subsection \<open>The manual single-message endpoint: \<^verbatim>\<open>POST /process-single/:emailId\<close>\<close>

definition route_process_single :: "env \<Rightarrow> world \<Rightarrow> string \<Rightarrow> string option \<Rightarrow> response \<times> world" where
  "route_process_single ev w emailId moduleNameParam =
     (case fetchInboxEmails ev w 100 False of
        (None, w') \<Rightarrow> (ErrorStatus 400 ''fetch failed'', w')
      | (Some emails, w') \<Rightarrow>
          (case List.find (\<lambda>e. email_id e = emailId) emails of
             None \<Rightarrow> (ErrorStatus 404 ''Email not found'', w')
           | Some e \<Rightarrow>
               if ledger_lookup_fails ev emailId then (ErrorStatus 500 ''Failed to process email'', w')
               else if ledger_has w' emailId then (ErrorStatus 400 ''Email already processed'', w')
               else (let targetModule = (if truthyStr moduleNameParam then moduleNameParam
                                         else moduleName (parseModuleTagFromSubject (subject e)))
                     in if \<not> truthyStr targetModule
                        then (ErrorStatus 400 ''No module specified and no module tag in subject'', w')
                        else if module_lookup_fails ev (the targetModule)
                        then (ErrorStatus 500 ''Failed to process email'', w')
                        else (case find_module w' (the targetModule) of
                                None \<Rightarrow>
                                  (ErrorStatus 404
                                     (''Module '' @ [CHR 0x27] @ the targetModule @ [CHR 0x27] @
                                      '' not found''), w')
                              | Some md \<Rightarrow>
                                  (case ingestEmail Single ev w' e md
                                          (cleanSubject (parseModuleTagFromSubject (subject e))) of
                                     (Some recordId, w'') \<Rightarrow> (SingleResult recordId (m_id md), w'')
                                   | (None, w'') \<Rightarrow>
                                       (ErrorStatus 500 ''Failed to process email'', w''))))))"

section \<open>A sample installation\<close>

text \<open>
  One module, one unread tagged message, collaborators that all succeed.  The theorems
  about concrete runs below are stated on this installation and variations of it.
\<close>

definition demo_env :: env where
  "demo_env =
     \<lparr> debug_setting = Some False, modules_query_fails = False, fetch_ok = True,
       ledger_lookup_fails = (\<lambda>_. False), module_lookup_fails = (\<lambda>_. False),
       insert_record_fails = (\<lambda>_. False), insert_ledger_fails = (\<lambda>_. False),
       uploadsDir = True, list_attachments = (\<lambda>_. Some []),
       download_ok = (\<lambda>_ _. True), store_attachment_fails = (\<lambda>_ _. False),
       random_hex = (\<lambda>_. ''00112233aabbccdd''), insert_link_fails = (\<lambda>_. False),
       insert_history_fails = (\<lambda>_. False), send_ok = (\<lambda>_. True),
       insert_sent_history_fails = (\<lambda>_. False), mark_read_ok = (\<lambda>_. True),
       hostname = (\<lambda>_. None), iso_date = (\<lambda>_. Some ''2024-05-01T10:00:00.000Z''),
       request_user = Some ''admin@example.com'' \<rparr>"

definition demo_module :: "config_text \<Rightarrow> module_row" where
  "demo_module cfg =
     \<lparr> m_id = 7, m_name = ''support'', m_display_name = ''Support'', m_config = cfg,
       m_is_active = True \<rparr>"

definition demo_email :: "string \<Rightarrow> string \<Rightarrow> email" where
  "demo_email subj html =
     \<lparr> email_id = ''m1'', subject = subj, fromAddress = ''a@b.com'', fromName = ''Ann'',
       receivedAt = ''2024-05-01T10:00:00Z'', bodyPreview = ''Hi'',
       body = html, isRead = False, hasAttachments = False \<rparr>"

definition demo_world :: "config_text \<Rightarrow> string \<Rightarrow> string \<Rightarrow> world" where
  "demo_world cfg subj html =
     \<lparr> modules = [demo_module cfg], module_records = [], last_record_id = 0,
       processed_emails = [], record_history = [], record_images = [], record_documents = [],
       record_links = [], mailbox = [demo_email subj html], fetch_calls = 0, outbox = [],
       isProcessing = False, debugLogging = False \<rparr>"

text \<open>The same installation after the message has been given a ledger row.\<close>

definition demo_ledger_row :: processed_email where
  "demo_ledger_row =
     \<lparr> pe_email_id = ''m1'', pe_module_id = None, pe_record_id = None,
       pe_from_address = ''a@b.com'', pe_from_name = ''Ann'',
       pe_subject = ''[Support] Broken chair'', pe_body_preview = ''Hi'',
       pe_received_at = Some ''2024-05-01 10:00:00'', pe_status = ''error'',
       pe_error_message = Some ''seen before'' \<rparr>"

definition demo_world_seen :: world where
  "demo_world_seen =
     (demo_world (ConfigValue True True) ''[Support] Broken chair'' ''Hi'')
       \<lparr> processed_emails := [demo_ledger_row] \<rparr>"

text \<open>Collaborators as above, except that the insert into \<^verbatim>\<open>module_records\<close> throws.\<close>

definition demo_env_record_fails :: env where
  "demo_env_record_fails = demo_env\<lparr> insert_record_fails := (\<lambda>_. True) \<rparr>"


text \<open>Collaborators as above, with one image attached to every message.\<close>

definition demo_env_image :: env where
  "demo_env_image =
     demo_env\<lparr> list_attachments :=
       (\<lambda>_. Some [\<lparr> att_id = ''a1'', att_name = ''photo.png'', att_contentType = ''image/png'',
                     att_size = 10, att_isInline = False \<rparr>]) \<rparr>"

section \<open>The worlds of a scheduled pass\<close>

lemma last_processEmails_loop_states:
  "last (processEmails_loop_states ev mods w es) = processEmails_loop ev mods w es"
proof (induction es arbitrary: w)
  case Nil
  show ?case by simp
next
  case (Cons e es)
  obtain out w1 where st: "processEmails_message ev mods w e = (out, w1)"
    by (cases "processEmails_message ev mods w e")
  have ne: "processEmails_loop_states ev mods w1 es \<noteq> []" by (cases es) simp_all
  show ?case using st ne Cons.IH [of w1] by (cases out) simp_all
qed

lemma last_processEmails_try_states:
  "last (processEmails_try_states ev w) = processEmails_try ev w"
proof -
  have ne: "processEmails_loop_states ev mods w' es \<noteq> []" for mods w' es
    by (cases es) simp_all
  show ?thesis
    by (simp add: processEmails_try_states_def processEmails_try_def Let_def ne
        last_processEmails_loop_states split: prod.splits option.splits)
qed

text \<open>The world in which \<^verbatim>\<open>processEmails\<close> is done, written without the list of worlds.\<close>

lemma processEmails_unfold [code]:
  "processEmails ev w =
     (let w1 = loadDebugSetting ev w
      in if isProcessing w1 then w1
         else (processEmails_try ev (w1\<lparr> isProcessing := True \<rparr>))\<lparr> isProcessing := False \<rparr>)"
  by (simp add: processEmails_def processEmails_states_def Let_def last_processEmails_try_states)

section \<open>What the attachment and link savers change\<close>

lemma saveAttachments_loop_shape:
  "\<exists>imgs docs. saveAttachments_loop ev emailId recordId moduleId userEmail atts ((i0, d0), w) =
     ((i0 + length imgs, d0 + length docs),
      w\<lparr> record_images := record_images w @ imgs, record_documents := record_documents w @ docs \<rparr>)"
proof (induction atts arbitrary: i0 d0 w)
  case Nil
  have "saveAttachments_loop ev emailId recordId moduleId userEmail [] ((i0, d0), w) =
     ((i0 + length ([]::image_row list), d0 + length ([]::document_row list)),
      w\<lparr> record_images := record_images w @ [], record_documents := record_documents w @ [] \<rparr>)"
    by simp
  then show ?case by blast
next
  case (Cons a as)
  show ?case
  proof (cases "\<not> download_ok ev emailId a \<or> store_attachment_fails ev emailId a")
    case True
    then have "saveAttachments_loop ev emailId recordId moduleId userEmail (a # as) ((i0, d0), w) =
       saveAttachments_loop ev emailId recordId moduleId userEmail as ((i0, d0), w)"
      by (auto simp: Let_def)
    then show ?thesis using Cons.IH [of i0 d0 w] by simp
  next
    case False
    show ?thesis
    proof (cases "isImageContentType (att_contentType a)")
      case True
      define row where "row = \<lparr> ri_record_id = recordId, ri_module_id = moduleId,
          ri_image_path = ''/uploads/'' @ ''images'' @ ''/'' @ generateUniqueFilename (random_hex ev a) (att_name a),
          ri_created_by = userEmail \<rparr>"
      have step: "saveAttachments_loop ev emailId recordId moduleId userEmail (a # as) ((i0, d0), w) =
         saveAttachments_loop ev emailId recordId moduleId userEmail as
           ((Suc i0, d0), w\<lparr> record_images := record_images w @ [row] \<rparr>)"
        using False True by (simp add: Let_def row_def)
      obtain imgs docs where
        "saveAttachments_loop ev emailId recordId moduleId userEmail as
           ((Suc i0, d0), w\<lparr> record_images := record_images w @ [row] \<rparr>) =
         ((Suc i0 + length imgs, d0 + length docs),
          w\<lparr> record_images := record_images w @ [row] \<rparr>
           \<lparr> record_images := record_images (w\<lparr> record_images := record_images w @ [row] \<rparr>) @ imgs,
             record_documents := record_documents (w\<lparr> record_images := record_images w @ [row] \<rparr>) @ docs \<rparr>)"
        using Cons.IH [of "Suc i0" d0 "w\<lparr> record_images := record_images w @ [row] \<rparr>"] by blast
      then have "saveAttachments_loop ev emailId recordId moduleId userEmail (a # as) ((i0, d0), w) =
         ((i0 + length (row # imgs), d0 + length docs),
          w\<lparr> record_images := record_images w @ (row # imgs), record_documents := record_documents w @ docs \<rparr>)"
        using step by simp
      then show ?thesis by blast
    next
      case notimg: False
      define row where "row = \<lparr> rd_record_id = recordId, rd_module_id = moduleId,
          rd_file_path = ''/uploads/'' @ ''documents'' @ ''/'' @ generateUniqueFilename (random_hex ev a) (att_name a),
          rd_file_name = att_name a, rd_file_type = att_contentType a, rd_file_size = att_size a,
          rd_created_by = userEmail \<rparr>"
      have step: "saveAttachments_loop ev emailId recordId moduleId userEmail (a # as) ((i0, d0), w) =
         saveAttachments_loop ev emailId recordId moduleId userEmail as
           ((i0, Suc d0), w\<lparr> record_documents := record_documents w @ [row] \<rparr>)"
        using False notimg by (simp add: Let_def row_def)
      obtain imgs docs where
        "saveAttachments_loop ev emailId recordId moduleId userEmail as
           ((i0, Suc d0), w\<lparr> record_documents := record_documents w @ [row] \<rparr>) =
         ((i0 + length imgs, Suc d0 + length docs),
          w\<lparr> record_documents := record_documents w @ [row] \<rparr>
           \<lparr> record_images := record_images (w\<lparr> record_documents := record_documents w @ [row] \<rparr>) @ imgs,
             record_documents := record_documents (w\<lparr> record_documents := record_documents w @ [row] \<rparr>) @ docs \<rparr>)"
        using Cons.IH [of i0 "Suc d0" "w\<lparr> record_documents := record_documents w @ [row] \<rparr>"] by blast
      then have "saveAttachments_loop ev emailId recordId moduleId userEmail (a # as) ((i0, d0), w) =
         ((i0 + length imgs, d0 + length (row # docs)),
          w\<lparr> record_images := record_images w @ imgs, record_documents := record_documents w @ (row # docs) \<rparr>)"
        using step by simp
      then show ?thesis by blast
    qed
  qed
qed

lemma saveAttachments_shape:
  "\<exists>imgs docs. saveAttachments ev w emailId recordId moduleId userEmail =
     ((length imgs, length docs),
      w\<lparr> record_images := record_images w @ imgs, record_documents := record_documents w @ docs \<rparr>)"
proof -
  have triv: "((0::nat, 0::nat), w) = ((length ([]::image_row list), length ([]::document_row list)),
      w\<lparr> record_images := record_images w @ [], record_documents := record_documents w @ [] \<rparr>)"
    by simp
  show ?thesis
  proof (cases "list_attachments ev emailId")
    case None
    then have "saveAttachments ev w emailId recordId moduleId userEmail = ((0, 0), w)"
      by (simp add: saveAttachments_def)
    then show ?thesis using triv by metis
  next
    case (Some atts)
    show ?thesis
    proof (cases "atts = []")
      case True
      then have "saveAttachments ev w emailId recordId moduleId userEmail = ((0, 0), w)"
        using Some by (simp add: saveAttachments_def)
      then show ?thesis using triv by metis
    next
      case False
      then have "saveAttachments ev w emailId recordId moduleId userEmail =
         saveAttachments_loop ev emailId recordId moduleId userEmail atts ((0, 0), w)"
        using Some by (simp add: saveAttachments_def)
      then show ?thesis
        using saveAttachments_loop_shape [of ev emailId recordId moduleId userEmail atts 0 0 w] by simp
    qed
  qed
qed


lemma saveAttachments_dest:
  assumes "saveAttachments ev w emailId recordId moduleId userEmail = (cnt, w')"
  shows "\<exists>imgs docs. cnt = (length imgs, length docs) \<and>
     w' = w\<lparr> record_images := record_images w @ imgs, record_documents := record_documents w @ docs \<rparr>"
  using assms saveAttachments_shape [of ev w emailId recordId moduleId userEmail] by auto

lemma saveLinks_loop_shape:
  "\<exists>ls. saveLinks_loop ev recordId moduleId links (n0, w) =
     (n0 + length ls, w\<lparr> record_links := record_links w @ ls \<rparr>)"
proof (induction links arbitrary: n0 w)
  case Nil
  have "saveLinks_loop ev recordId moduleId [] (n0, w) =
     (n0 + length ([]::link_row list), w\<lparr> record_links := record_links w @ [] \<rparr>)"
    by simp
  then show ?case by blast
next
  case (Cons l ls)
  show ?case
  proof (cases "insert_link_fails ev (url l)")
    case True
    then show ?thesis using Cons.IH [of n0 w] by simp
  next
    case False
    define row where "row = \<lparr> rl_record_id = recordId, rl_module_id = moduleId, rl_url = url l,
        rl_title = title l, rl_description = ''Extracted from email'' \<rparr>"
    obtain rs where "saveLinks_loop ev recordId moduleId ls
          (Suc n0, w\<lparr> record_links := record_links w @ [row] \<rparr>) =
        (Suc n0 + length rs, w\<lparr> record_links := record_links w @ [row] \<rparr>
           \<lparr> record_links := record_links (w\<lparr> record_links := record_links w @ [row] \<rparr>) @ rs \<rparr>)"
      using Cons.IH [of "Suc n0" "w\<lparr> record_links := record_links w @ [row] \<rparr>"] by blast
    then have "saveLinks_loop ev recordId moduleId (l # ls) (n0, w) =
        (n0 + length (row # rs), w\<lparr> record_links := record_links w @ (row # rs) \<rparr>)"
      using False by (simp add: row_def)
    then show ?thesis by blast
  qed
qed

lemma saveEmailLinks_loop_shape:
  "\<exists>ls. saveEmailLinks_loop ev recordId moduleId links (n0, w) =
     (n0 + length ls, w\<lparr> record_links := record_links w @ ls \<rparr>)"
proof (induction links arbitrary: n0 w)
  case Nil
  have "saveEmailLinks_loop ev recordId moduleId [] (n0, w) =
     (n0 + length ([]::link_row list), w\<lparr> record_links := record_links w @ [] \<rparr>)"
    by simp
  then show ?case by blast
next
  case (Cons l ls)
  show ?case
  proof (cases "length (url l) > 2000 \<or> insert_link_fails ev (url l)")
    case True
    then have "saveEmailLinks_loop ev recordId moduleId (l # ls) (n0, w) =
       saveEmailLinks_loop ev recordId moduleId ls (n0, w)" by auto
    then show ?thesis using Cons.IH [of n0 w] by simp
  next
    case False
    define row where "row = \<lparr> rl_record_id = recordId, rl_module_id = moduleId, rl_url = url l,
        rl_title = take 255 (title l), rl_description = ''Extracted from email'' \<rparr>"
    obtain rs where "saveEmailLinks_loop ev recordId moduleId ls
          (Suc n0, w\<lparr> record_links := record_links w @ [row] \<rparr>) =
        (Suc n0 + length rs, w\<lparr> record_links := record_links w @ [row] \<rparr>
           \<lparr> record_links := record_links (w\<lparr> record_links := record_links w @ [row] \<rparr>) @ rs \<rparr>)"
      using Cons.IH [of "Suc n0" "w\<lparr> record_links := record_links w @ [row] \<rparr>"] by blast
    then have "saveEmailLinks_loop ev recordId moduleId (l # ls) (n0, w) =
        (n0 + length (row # rs), w\<lparr> record_links := record_links w @ (row # rs) \<rparr>)"
      using False by (simp add: row_def)
    then show ?thesis by blast
  qed
qed

lemma saveLinksFor_dest:
  assumes "saveLinksFor v ev w recordId moduleId html = (n, w')"
  shows "\<exists>ls. n = length ls \<and> w' = w\<lparr> record_links := record_links w @ ls \<rparr>"
proof -
  have triv: "(0::nat, w) = (length ([]::link_row list), w\<lparr> record_links := record_links w @ [] \<rparr>)"
    by simp
  have a: "\<exists>ls. saveLinks ev w recordId moduleId html =
      (length ls, w\<lparr> record_links := record_links w @ ls \<rparr>)"
    using saveLinks_loop_shape [of ev recordId moduleId "extractLinksFromHtml_processor html" 0 w]
    by (simp add: saveLinks_def)
  have b: "\<exists>ls. saveEmailLinks ev w recordId moduleId html =
      (length ls, w\<lparr> record_links := record_links w @ ls \<rparr>)"
  proof (cases "extractLinksFromHtml_route (hostname ev) html = []")
    case True
    then have "saveEmailLinks ev w recordId moduleId html = (0, w)"
      by (simp add: saveEmailLinks_def)
    then show ?thesis using triv by metis
  next
    case False
    then show ?thesis
      using saveEmailLinks_loop_shape
        [of ev recordId moduleId "extractLinksFromHtml_route (hostname ev) html" 0 w]
      by (simp add: saveEmailLinks_def Let_def)
  qed
  show ?thesis
    using assms a b by (cases v) (auto simp: saveLinksFor_def)
qed

section \<open>What the pipeline changes\<close>

lemma ingest_finish_dest:
  assumes "ingest_finish v ev w e md cs rid cnt lc = (res, w')"
  shows "\<exists>hs ob mb.
     w' = w\<lparr> record_history := record_history w @ hs, outbox := outbox w @ ob, mailbox := mb \<rparr> \<and>
     (res = None \<or> res = Some rid) \<and>
     (res = Some rid \<longrightarrow>
        (\<exists>h. filter (\<lambda>x. rh_action x = ''created'') hs = [h] \<and> rh_record_id h = rid \<and>
             rh_description h = historyDesc v (fst cnt) (snd cnt) lc))"
proof -
  define h where "h = \<lparr> rh_record_id = rid, rh_module_id = m_id md, rh_action = ''created'',
      rh_description = historyDesc v (fst cnt) (snd cnt) lc,
      rh_changed_by = historyUser v ev e, rh_user_email = historyUser v ev e \<rparr>"
  define s where "s = \<lparr> rh_record_id = rid, rh_module_id = m_id md, rh_action = ''email_sent'',
      rh_description = ''Auto-response email sent to '' @ fromAddress e,
      rh_changed_by = ''system'', rh_user_email = ''system'' \<rparr>"
  define m where "m = \<lparr> sm_to = fromAddress e, sm_module = toUpperCaseJS (m_name md),
      sm_record_id = rid, sm_original_subject = (if cs \<noteq> [] then cs else subject e) \<rparr>"
  have hc: "rh_action h = ''created''" "rh_record_id h = rid"
    "rh_description h = historyDesc v (fst cnt) (snd cnt) lc" "rh_action s \<noteq> ''created''"
    by (simp_all add: h_def s_def)
  consider (a) "insert_history_fails ev (email_id e)"
    | (b) "\<not> insert_history_fails ev (email_id e)" "\<not> send_ok ev (email_id e)"
    | (c) "\<not> insert_history_fails ev (email_id e)" "send_ok ev (email_id e)"
          "insert_sent_history_fails ev (email_id e)"
    | (d) "\<not> insert_history_fails ev (email_id e)" "send_ok ev (email_id e)"
          "\<not> insert_sent_history_fails ev (email_id e)"
    by blast
  then show ?thesis
  proof cases
    case a
    then have "res = None" "w' = w\<lparr> record_history := record_history w @ [],
        outbox := outbox w @ [], mailbox := mailbox w \<rparr>"
      using assms by (auto simp: ingest_finish_def)
    then show ?thesis by blast
  next
    case b
    then have "res = Some rid"
      "w' = w\<lparr> record_history := record_history w @ [h], outbox := outbox w @ [],
         mailbox := mailbox (markEmailAsRead ev w (email_id e)) \<rparr>"
      using assms by (auto simp: ingest_finish_def Let_def h_def markEmailAsRead_def)
    moreover have "filter (\<lambda>x. rh_action x = ''created'') [h] = [h]" using hc by simp
    ultimately show ?thesis using hc by blast
  next
    case c
    then have "res = None" "w' = w\<lparr> record_history := record_history w @ [h],
        outbox := outbox w @ [m], mailbox := mailbox w \<rparr>"
      using assms by (auto simp: ingest_finish_def Let_def h_def m_def)
    then show ?thesis by blast
  next
    case d
    then have "res = Some rid"
      "w' = w\<lparr> record_history := record_history w @ [h, s], outbox := outbox w @ [m],
         mailbox := mailbox (markEmailAsRead ev w (email_id e)) \<rparr>"
      using assms by (auto simp: ingest_finish_def Let_def h_def s_def m_def markEmailAsRead_def)
    moreover have "filter (\<lambda>x. rh_action x = ''created'') [h, s] = [h]" using hc by simp
    ultimately show ?thesis using hc by blast
  qed
qed

lemma ingest_materialize_dest:
  assumes "ingest_materialize v ev w e md cs rid = (res, w')"
  shows "\<exists>imgs docs ls hs ob mb.
     w' = w\<lparr> record_images := record_images w @ imgs,
             record_documents := record_documents w @ docs,
             record_links := record_links w @ ls,
             record_history := record_history w @ hs, outbox := outbox w @ ob, mailbox := mb \<rparr> \<and>
     (res = None \<or> res = Some rid) \<and>
     (res = Some rid \<longrightarrow>
        (\<exists>h. filter (\<lambda>x. rh_action x = ''created'') hs = [h] \<and> rh_record_id h = rid \<and>
             rh_description h = historyDesc v (length imgs) (length docs) (length ls)))"
proof -
  obtain cnt w3 where a: "(if uploadsDir ev
             then saveAttachments ev w (email_id e) rid (m_id md) (fromAddress e)
             else ((0, 0), w)) = (cnt, w3)"
    by (metis surj_pair)
  obtain imgs docs where a': "cnt = (length imgs, length docs)"
     "w3 = w\<lparr> record_images := record_images w @ imgs, record_documents := record_documents w @ docs \<rparr>"
  proof (cases "uploadsDir ev")
    case True
    then show ?thesis using a saveAttachments_dest that by metis
  next
    case False
    then have "cnt = (length ([]::image_row list), length ([]::document_row list))"
      "w3 = w\<lparr> record_images := record_images w @ [], record_documents := record_documents w @ [] \<rparr>"
      using a by simp_all
    then show ?thesis using that by blast
  qed
  obtain lc w4 where b: "saveLinksFor v ev w3 rid (m_id md) (body e) = (lc, w4)"
    by (metis surj_pair)
  obtain ls where b': "lc = length ls" "w4 = w3\<lparr> record_links := record_links w3 @ ls \<rparr>"
    using saveLinksFor_dest [OF b] by blast
  have "ingest_finish v ev w4 e md cs rid cnt lc = (res, w')"
    using assms a b by (simp add: ingest_materialize_def)
  from ingest_finish_dest [OF this]
  obtain hs ob mb where c:
    "w' = w4\<lparr> record_history := record_history w4 @ hs, outbox := outbox w4 @ ob, mailbox := mb \<rparr>"
    "res = None \<or> res = Some rid"
    "res = Some rid \<longrightarrow>
        (\<exists>h. filter (\<lambda>x. rh_action x = ''created'') hs = [h] \<and> rh_record_id h = rid \<and>
             rh_description h = historyDesc v (fst cnt) (snd cnt) lc)"
    by blast
  have "w' = w\<lparr> record_images := record_images w @ imgs,
             record_documents := record_documents w @ docs,
             record_links := record_links w @ ls,
             record_history := record_history w @ hs, outbox := outbox w @ ob, mailbox := mb \<rparr>"
    using c(1) a'(2) b'(2) by simp
  moreover have "res = Some rid \<longrightarrow>
        (\<exists>h. filter (\<lambda>x. rh_action x = ''created'') hs = [h] \<and> rh_record_id h = rid \<and>
             rh_description h = historyDesc v (length imgs) (length docs) (length ls))"
    using c(3) a'(1) b'(1) by simp
  ultimately show ?thesis using c(2) by blast
qed

lemma ingestEmail_dest:
  assumes "ingestEmail v ev w e md cs = (res, w')"
  shows "\<exists>rs ps imgs docs ls hs ob mb.
     w' = w\<lparr> module_records := module_records w @ rs,
             last_record_id := last_record_id w + length rs,
             processed_emails := processed_emails w @ ps,
             record_images := record_images w @ imgs,
             record_documents := record_documents w @ docs,
             record_links := record_links w @ ls,
             record_history := record_history w @ hs, outbox := outbox w @ ob, mailbox := mb \<rparr> \<and>
     (ps = [] \<or>
      (\<exists>row r. ps = [row] \<and> rs = [r] \<and> record_id r = Suc (last_record_id w) \<and>
         \<not> ledger_has w (email_id e) \<and> \<not> insert_record_fails ev e \<and>
         pe_email_id row = email_id e \<and> pe_status row = ''processed'' \<and>
         pe_module_id row = Some (m_id md) \<and> pe_record_id row = Some (record_id r) \<and>
         pe_error_message row = None)) \<and>
     (\<forall>rid. res = Some rid \<longrightarrow>
        rid = Suc (last_record_id w) \<and> ps \<noteq> [] \<and>
        (\<exists>h. filter (\<lambda>x. rh_action x = ''created'') hs = [h] \<and> rh_record_id h = rid \<and>
             rh_description h = historyDesc v (length imgs) (length docs) (length ls)))"
proof -
  define r where "r = \<lparr> record_id = Suc (last_record_id w), record_module_id = m_id md,
      record_name = (if cs \<noteq> [] then cs else ''Email''), record_status = ''active'',
      data = \<lparr> description = htmlToPlainText v (if body e \<noteq> [] then body e else bodyPreview e),
               email_from = fromAddress e, email_from_name = fromName e, email_subject = cs,
               email_received_at = receivedAt e \<rparr>,
      created_by = fromAddress e, updated_by = fromAddress e \<rparr>"
  define row where "row = \<lparr> pe_email_id = email_id e, pe_module_id = Some (m_id md),
      pe_record_id = Some (Suc (last_record_id w)), pe_from_address = fromAddress e,
      pe_from_name = fromName e, pe_subject = subject e, pe_body_preview = bodyPreview e,
      pe_received_at = toMySQLDatetime ev (receivedAt e),
      pe_status = ''processed'', pe_error_message = None \<rparr>"
  define w1 where "w1 = w\<lparr> module_records := module_records w @ [r],
      last_record_id := Suc (last_record_id w) \<rparr>"
  have unfold: "ingestEmail v ev w e md cs =
     (if insert_record_fails ev e then (None, w)
      else case insert_processed_email ev w1 row of
             None \<Rightarrow> (None, w1)
           | Some w2 \<Rightarrow> ingest_materialize v ev w2 e md cs (Suc (last_record_id w)))"
    by (simp only: ingestEmail_def Let_def r_def row_def w1_def)
  have rowf: "pe_email_id row = email_id e" "pe_status row = ''processed''"
    "pe_module_id row = Some (m_id md)" "pe_record_id row = Some (record_id r)"
    "pe_error_message row = None" "record_id r = Suc (last_record_id w)"
    by (simp_all add: row_def r_def)
  have lh: "ledger_has w1 x = ledger_has w x" for x
    by (simp add: ledger_has_def w1_def)
  consider (a) "insert_record_fails ev e"
    | (b) "\<not> insert_record_fails ev e" "insert_processed_email ev w1 row = None"
    | (c) w2 where "\<not> insert_record_fails ev e" "insert_processed_email ev w1 row = Some w2"
    by (cases "insert_processed_email ev w1 row") auto
  then show ?thesis
  proof cases
    case a
    then have "res = None" "w' = w" using assms unfold by simp_all
    then have "w' = w\<lparr> module_records := module_records w @ [],
             last_record_id := last_record_id w + length ([]::module_record list),
             processed_emails := processed_emails w @ [],
             record_images := record_images w @ [],
             record_documents := record_documents w @ [],
             record_links := record_links w @ [],
             record_history := record_history w @ [], outbox := outbox w @ [],
             mailbox := mailbox w \<rparr>" by simp
    then show ?thesis using \<open>res = None\<close> by blast
  next
    case b
    then have "res = None" "w' = w1" using assms unfold by simp_all
    then have "w' = w\<lparr> module_records := module_records w @ [r],
             last_record_id := last_record_id w + length [r],
             processed_emails := processed_emails w @ [],
             record_images := record_images w @ [],
             record_documents := record_documents w @ [],
             record_links := record_links w @ [],
             record_history := record_history w @ [], outbox := outbox w @ [],
             mailbox := mailbox w \<rparr>" by (simp add: w1_def)
    then show ?thesis using \<open>res = None\<close> by blast
  next
    case c
    then have nl: "\<not> ledger_has w (email_id e)"
      and w2: "w2 = w1\<lparr> processed_emails := processed_emails w1 @ [row] \<rparr>"
      using lh rowf(1) by (auto simp: insert_processed_email_def split: if_splits)
    have "ingest_materialize v ev w2 e md cs (Suc (last_record_id w)) = (res, w')"
      using assms unfold c by simp
    from ingest_materialize_dest [OF this]
    obtain imgs docs ls hs ob mb where m:
      "w' = w2\<lparr> record_images := record_images w2 @ imgs,
             record_documents := record_documents w2 @ docs,
             record_links := record_links w2 @ ls,
             record_history := record_history w2 @ hs, outbox := outbox w2 @ ob, mailbox := mb \<rparr>"
      "res = None \<or> res = Some (Suc (last_record_id w))"
      "res = Some (Suc (last_record_id w)) \<longrightarrow>
        (\<exists>h. filter (\<lambda>x. rh_action x = ''created'') hs = [h] \<and>
             rh_record_id h = Suc (last_record_id w) \<and>
             rh_description h = historyDesc v (length imgs) (length docs) (length ls))"
      by blast
    have "w' = w\<lparr> module_records := module_records w @ [r],
             last_record_id := last_record_id w + length [r],
             processed_emails := processed_emails w @ [row],
             record_images := record_images w @ imgs,
             record_documents := record_documents w @ docs,
             record_links := record_links w @ ls,
             record_history := record_history w @ hs, outbox := outbox w @ ob, mailbox := mb \<rparr>"
      using m(1) w2 by (simp add: w1_def)
    moreover have "\<exists>row' r'. [row] = [row'] \<and> [r] = [r'] \<and> record_id r' = Suc (last_record_id w) \<and>
         \<not> ledger_has w (email_id e) \<and> \<not> insert_record_fails ev e \<and>
         pe_email_id row' = email_id e \<and> pe_status row' = ''processed'' \<and>
         pe_module_id row' = Some (m_id md) \<and> pe_record_id row' = Some (record_id r') \<and>
         pe_error_message row' = None"
      using rowf nl c(1) by blast
    moreover have "\<forall>rid. res = Some rid \<longrightarrow>
        rid = Suc (last_record_id w) \<and> [row] \<noteq> [] \<and>
        (\<exists>h. filter (\<lambda>x. rh_action x = ''created'') hs = [h] \<and> rh_record_id h = rid \<and>
             rh_description h = historyDesc v (length imgs) (length docs) (length ls))"
      using m(2,3) by auto
    ultimately show ?thesis by blast
  qed
qed

section \<open>One message of a pass\<close>

lemma find_in_set: "List.find P xs = Some x \<Longrightarrow> x \<in> set xs \<and> P x"
  by (induction xs) (auto split: if_splits)

lemma processEmails_message_cases:
  assumes "processEmails_message ev mods w e = (out, w')"
  shows "(w' = w \<and> out \<in> {Aborted, AlreadyProcessed, NoTag, NoModule}) \<or>
    (\<exists>md res. md \<in> set mods \<and>
       \<not> ledger_lookup_fails ev (email_id e) \<and> \<not> ledger_has w (email_id e) \<and>
       truthyStr (moduleName (parseModuleTagFromSubject (subject e))) \<and>
       ingestEmail Auto ev w e md (cleanSubject (parseModuleTagFromSubject (subject e))) = (res, w') \<and>
       out = (case res of Some rid \<Rightarrow> Processed rid | None \<Rightarrow> Failed))"
  using assms
  by (auto simp: processEmails_message_def Let_def
      split: if_splits option.splits prod.splits dest: find_in_set)

lemma route_process_message_cases:
  assumes "route_process_message ev w e = (out, w')"
  shows "(w' = w \<and> out \<in> {Aborted, AlreadyProcessed}) \<or>
    (\<exists>row. \<not> ledger_has w (email_id e) \<and> \<not> insert_ledger_fails ev (email_id e) \<and>
       w' = w\<lparr> processed_emails := processed_emails w @ [row] \<rparr> \<and>
       pe_email_id row = email_id e \<and> pe_record_id row = None \<and>
       pe_status row \<in> {''skipped'', ''error''} \<and>
       out \<in> {NoTag, NoModule, InboxDisabled}) \<or>
    (\<exists>md res. find_module w (the (moduleName (parseModuleTagFromSubject (subject e)))) = Some md \<and>
       inboxDisabled (m_config md) = Some False \<and>
       \<not> ledger_lookup_fails ev (email_id e) \<and> \<not> ledger_has w (email_id e) \<and>
       truthyStr (moduleName (parseModuleTagFromSubject (subject e))) \<and>
       ingestEmail Bulk ev w e md (cleanSubject (parseModuleTagFromSubject (subject e))) = (res, w') \<and>
       out = (case res of Some rid \<Rightarrow> Processed rid | None \<Rightarrow> Aborted))"
  using assms
  by (auto simp: route_process_message_def Let_def insert_processed_email_def ledgerRow_def
      split: if_splits option.splits prod.splits bool.splits)

lemma ledger_has_iff: "ledger_has w x \<longleftrightarrow> x \<in> pe_email_id ` set (processed_emails w)"
  by (auto simp: ledger_has_def list_ex_iff)

lemma ingestEmail_ledger:
  assumes "ingestEmail v ev w e md cs = (res, w')"
  shows "processed_emails w' = processed_emails w \<or>
    (\<exists>row r. processed_emails w' = processed_emails w @ [row] \<and>
       module_records w' = module_records w @ [r] \<and>
       \<not> ledger_has w (email_id e) \<and> \<not> insert_record_fails ev e \<and>
       pe_email_id row = email_id e \<and> pe_status row = ''processed'' \<and>
       pe_module_id row = Some (m_id md) \<and> pe_record_id row = Some (record_id r) \<and>
       pe_error_message row = None)"
proof -
  from ingestEmail_dest [OF assms]
  obtain rs ps imgs docs ls hs ob mb where d:
    "w' = w\<lparr> module_records := module_records w @ rs,
             last_record_id := last_record_id w + length rs,
             processed_emails := processed_emails w @ ps,
             record_images := record_images w @ imgs,
             record_documents := record_documents w @ docs,
             record_links := record_links w @ ls,
             record_history := record_history w @ hs, outbox := outbox w @ ob, mailbox := mb \<rparr>"
    "ps = [] \<or>
      (\<exists>row r. ps = [row] \<and> rs = [r] \<and> record_id r = Suc (last_record_id w) \<and>
         \<not> ledger_has w (email_id e) \<and> \<not> insert_record_fails ev e \<and>
         pe_email_id row = email_id e \<and> pe_status row = ''processed'' \<and>
         pe_module_id row = Some (m_id md) \<and> pe_record_id row = Some (record_id r) \<and>
         pe_error_message row = None)"
    by blast
  have pe: "processed_emails w' = processed_emails w @ ps"
    and mr: "module_records w' = module_records w @ rs"
    using d(1) by simp_all
  from d(2) show ?thesis
  proof
    assume "ps = []"
    then show ?thesis using pe by simp
  next
    assume "\<exists>row r. ps = [row] \<and> rs = [r] \<and> record_id r = Suc (last_record_id w) \<and>
         \<not> ledger_has w (email_id e) \<and> \<not> insert_record_fails ev e \<and>
         pe_email_id row = email_id e \<and> pe_status row = ''processed'' \<and>
         pe_module_id row = Some (m_id md) \<and> pe_record_id row = Some (record_id r) \<and>
         pe_error_message row = None"
    then show ?thesis using pe mr by auto
  qed
qed


lemma processEmails_message_ledger:
  assumes "processEmails_message ev mods w e = (out, w')"
  shows "processed_emails w' = processed_emails w \<or>
    (\<exists>row r. processed_emails w' = processed_emails w @ [row] \<and>
       module_records w' = module_records w @ [r] \<and>
       \<not> ledger_has w (email_id e) \<and> \<not> insert_record_fails ev e \<and>
       pe_email_id row = email_id e \<and> pe_status row = ''processed'' \<and>
       pe_module_id row \<in> Some ` m_id ` set mods \<and>
       pe_record_id row = Some (record_id r) \<and> pe_error_message row = None)"
  using processEmails_message_cases [OF assms]
proof
  assume "w' = w \<and> out \<in> {Aborted, AlreadyProcessed, NoTag, NoModule}"
  then show ?thesis by simp
next
  assume "\<exists>md res. md \<in> set mods \<and>
       \<not> ledger_lookup_fails ev (email_id e) \<and> \<not> ledger_has w (email_id e) \<and>
       truthyStr (moduleName (parseModuleTagFromSubject (subject e))) \<and>
       ingestEmail Auto ev w e md (cleanSubject (parseModuleTagFromSubject (subject e))) = (res, w') \<and>
       out = (case res of Some rid \<Rightarrow> Processed rid | None \<Rightarrow> Failed)"
  then obtain md res where md: "md \<in> set mods"
    and ing: "ingestEmail Auto ev w e md (cleanSubject (parseModuleTagFromSubject (subject e))) = (res, w')"
    by blast
  from ingestEmail_ledger [OF ing] show ?thesis using md by blast
qed

lemma route_process_message_ledger:
  assumes "route_process_message ev w e = (out, w')"
  shows "processed_emails w' = processed_emails w \<or>
    (\<exists>row. processed_emails w' = processed_emails w @ [row] \<and>
       \<not> ledger_has w (email_id e) \<and> pe_email_id row = email_id e \<and>
       (pe_status row = ''processed'' \<longrightarrow>
          (\<exists>r. module_records w' = module_records w @ [r] \<and>
               pe_record_id row = Some (record_id r) \<and> \<not> insert_record_fails ev e)))"
  using route_process_message_cases [OF assms]
proof (elim disjE)
  assume "w' = w \<and> out \<in> {Aborted, AlreadyProcessed}"
  then show ?thesis by simp
next
  assume "\<exists>row. \<not> ledger_has w (email_id e) \<and> \<not> insert_ledger_fails ev (email_id e) \<and>
       w' = w\<lparr> processed_emails := processed_emails w @ [row] \<rparr> \<and>
       pe_email_id row = email_id e \<and> pe_record_id row = None \<and>
       pe_status row \<in> {''skipped'', ''error''} \<and>
       out \<in> {NoTag, NoModule, InboxDisabled}"
  then obtain row where r: "\<not> ledger_has w (email_id e)"
    "w' = w\<lparr> processed_emails := processed_emails w @ [row] \<rparr>"
    "pe_email_id row = email_id e" "pe_status row \<in> {''skipped'', ''error''}"
    by blast
  have "pe_status row \<noteq> ''processed''" using r(4) by auto
  moreover have "processed_emails w' = processed_emails w @ [row]" using r(2) by simp
  ultimately show ?thesis using r(1,3) by blast
next
  assume "\<exists>md res. find_module w (the (moduleName (parseModuleTagFromSubject (subject e)))) = Some md \<and>
       inboxDisabled (m_config md) = Some False \<and>
       \<not> ledger_lookup_fails ev (email_id e) \<and> \<not> ledger_has w (email_id e) \<and>
       truthyStr (moduleName (parseModuleTagFromSubject (subject e))) \<and>
       ingestEmail Bulk ev w e md (cleanSubject (parseModuleTagFromSubject (subject e))) = (res, w') \<and>
       out = (case res of Some rid \<Rightarrow> Processed rid | None \<Rightarrow> Aborted)"
  then obtain md res where
    ing: "ingestEmail Bulk ev w e md (cleanSubject (parseModuleTagFromSubject (subject e))) = (res, w')"
    by blast
  from ingestEmail_ledger [OF ing] show ?thesis by blast
qed

section \<open>The ledger over a whole pass\<close>

lemma disjoint_images:
  assumes "\<forall>r \<in> set ys. f r \<notin> f ` set xs"
  shows "f ` set xs \<inter> f ` set ys = {}"
proof (rule ccontr)
  assume "f ` set xs \<inter> f ` set ys \<noteq> {}"
  then obtain y where "y \<in> f ` set xs" "y \<in> f ` set ys" by auto
  then obtain b where "b \<in> set ys" "y = f b" by auto
  then show False using assms \<open>y \<in> f ` set xs\<close> by simp
qed

lemma processEmails_loop_ledger:
  "\<exists>new. processed_emails (processEmails_loop ev mods w es) = processed_emails w @ new \<and>
     distinct (map pe_email_id new) \<and>
     (\<forall>r \<in> set new. \<not> ledger_has w (pe_email_id r) \<and> pe_status r = ''processed'' \<and>
        pe_module_id r \<in> Some ` m_id ` set mods \<and>
        pe_record_id r \<noteq> None \<and> pe_error_message r = None)"
proof (induction es arbitrary: w)
  case Nil
  show ?case by (rule exI [of _ "[]"]) simp
next
  case (Cons e es)
  obtain out w1 where st: "processEmails_message ev mods w e = (out, w1)" by (cases "processEmails_message ev mods w e")
  from processEmails_message_ledger [OF st]
  obtain new1 where n1: "processed_emails w1 = processed_emails w @ new1" "length new1 \<le> 1"
     "\<forall>r \<in> set new1. \<not> ledger_has w (pe_email_id r) \<and> pe_status r = ''processed'' \<and>
        pe_module_id r \<in> Some ` m_id ` set mods \<and>
        pe_record_id r \<noteq> None \<and> pe_error_message r = None"
  proof (elim disjE exE conjE)
    assume "processed_emails w1 = processed_emails w"
    then show thesis using that [of "[]"] by simp
  next
    fix row r
    assume "processed_emails w1 = processed_emails w @ [row]"
       "\<not> ledger_has w (email_id e)" "pe_email_id row = email_id e" "pe_status row = ''processed''"
       "pe_module_id row \<in> Some ` m_id ` set mods"
       "pe_record_id row = Some (record_id r)" "pe_error_message row = None"
    then show thesis using that [of "[row]"] by simp
  qed
  have d1: "distinct (map pe_email_id new1)"
    using n1(2) by (cases new1) simp_all
  show ?case
  proof (cases "out = Aborted")
    case True
    then have "processEmails_loop ev mods w (e # es) = w1" using st by simp
    then show ?thesis using n1(1,3) d1 by (intro exI [of _ new1]) simp
  next
    case False
    then have lp: "processEmails_loop ev mods w (e # es) = processEmails_loop ev mods w1 es"
      using st by (cases out) simp_all
    from Cons.IH [of w1] obtain new2 where n2:
      "processed_emails (processEmails_loop ev mods w1 es) = processed_emails w1 @ new2"
      "distinct (map pe_email_id new2)"
      "\<forall>r \<in> set new2. \<not> ledger_has w1 (pe_email_id r) \<and> pe_status r = ''processed'' \<and>
        pe_module_id r \<in> Some ` m_id ` set mods \<and>
        pe_record_id r \<noteq> None \<and> pe_error_message r = None"
      by (elim exE conjE)
    have mono: "\<not> ledger_has w x \<and> x \<notin> pe_email_id ` set new1" if "\<not> ledger_has w1 x" for x
      using that n1(1) by (simp add: ledger_has_iff image_Un)
    have a: "processed_emails (processEmails_loop ev mods w (e # es)) =
        processed_emails w @ (new1 @ new2)"
      using lp n2(1) n1(1) by simp
    have "\<forall>r \<in> set new2. pe_email_id r \<notin> pe_email_id ` set new1"
      using n2(3) mono by simp
    then have "pe_email_id ` set new1 \<inter> pe_email_id ` set new2 = {}"
      by (rule disjoint_images)
    then have b: "distinct (map pe_email_id (new1 @ new2))"
      using d1 n2(2) by simp
    have c: "\<not> ledger_has w (pe_email_id r) \<and> pe_status r = ''processed'' \<and>
        pe_module_id r \<in> Some ` m_id ` set mods \<and>
        pe_record_id r \<noteq> None \<and> pe_error_message r = None" if "r \<in> set (new1 @ new2)" for r
    proof (cases "r \<in> set new1")
      case True
      then show ?thesis using n1(3) by blast
    next
      case False
      then have "r \<in> set new2" using that by simp
      then show ?thesis using n2(3) mono by blast
    qed
    show ?thesis
      by (rule exI [of _ "new1 @ new2"]) (use a b c in blast)
  qed
qed

lemma route_process_loop_ledger:
  "\<exists>new. processed_emails (snd (route_process_loop ev w es acc)) = processed_emails w @ new \<and>
     distinct (map pe_email_id new) \<and>
     (\<forall>r \<in> set new. \<not> ledger_has w (pe_email_id r))"
proof (induction es arbitrary: w acc)
  case Nil
  show ?case by (rule exI [of _ "[]"]) simp
next
  case (Cons e es)
  obtain out w1 where st: "route_process_message ev w e = (out, w1)"
    by (cases "route_process_message ev w e")
  from route_process_message_ledger [OF st]
  obtain new1 where n1: "processed_emails w1 = processed_emails w @ new1" "length new1 \<le> 1"
     "\<forall>r \<in> set new1. \<not> ledger_has w (pe_email_id r)"
  proof (elim disjE exE conjE)
    assume "processed_emails w1 = processed_emails w"
    then show thesis using that [of "[]"] by simp
  next
    fix row
    assume "processed_emails w1 = processed_emails w @ [row]"
       "\<not> ledger_has w (email_id e)" "pe_email_id row = email_id e"
    then show thesis using that [of "[row]"] by simp
  qed
  have d1: "distinct (map pe_email_id new1)"
    using n1(2) by (cases new1) simp_all
  show ?case
  proof (cases "out = Aborted")
    case True
    then have "route_process_loop ev w (e # es) acc = (None, w1)" using st by simp
    then show ?thesis using n1(1,3) d1 by (intro exI [of _ new1]) simp
  next
    case False
    then have lp: "route_process_loop ev w (e # es) acc =
        route_process_loop ev w1 es (acc @ [(email_id e, out)])"
      using st by (cases out) simp_all
    from Cons.IH [of w1 "acc @ [(email_id e, out)]"] obtain new2 where n2:
      "processed_emails (snd (route_process_loop ev w1 es (acc @ [(email_id e, out)]))) =
         processed_emails w1 @ new2"
      "distinct (map pe_email_id new2)"
      "\<forall>r \<in> set new2. \<not> ledger_has w1 (pe_email_id r)"
      by (elim exE conjE)
    have mono: "\<not> ledger_has w x \<and> x \<notin> pe_email_id ` set new1" if "\<not> ledger_has w1 x" for x
      using that n1(1) by (simp add: ledger_has_iff image_Un)
    have a: "processed_emails (snd (route_process_loop ev w (e # es) acc)) =
        processed_emails w @ (new1 @ new2)"
      using lp n2(1) n1(1) by simp
    have "\<forall>r \<in> set new2. pe_email_id r \<notin> pe_email_id ` set new1"
      using n2(3) mono by simp
    then have "pe_email_id ` set new1 \<inter> pe_email_id ` set new2 = {}"
      by (rule disjoint_images)
    then have b: "distinct (map pe_email_id (new1 @ new2))"
      using d1 n2(2) by simp
    have c: "\<not> ledger_has w (pe_email_id r)" if "r \<in> set (new1 @ new2)" for r
    proof (cases "r \<in> set new1")
      case True
      then show ?thesis using n1(3) by simp
    next
      case False
      then have "r \<in> set new2" using that by simp
      then have "\<not> ledger_has w1 (pe_email_id r)" using n2(3) by simp
      then show ?thesis using mono by simp
    qed
    show ?thesis
      by (rule exI [of _ "new1 @ new2"]) (use a b c in simp)
  qed
qed

lemma ledger_has_update [simp]:
  "ledger_has (w\<lparr> isProcessing := b \<rparr>) x = ledger_has w x"
  "ledger_has (w\<lparr> debugLogging := b \<rparr>) x = ledger_has w x"
  "ledger_has (w\<lparr> fetch_calls := n \<rparr>) x = ledger_has w x"
  by (simp_all add: ledger_has_def)

lemma processEmails_ledger:
  "\<exists>new. processed_emails (processEmails ev w) = processed_emails w @ new \<and>
     distinct (map pe_email_id new) \<and>
     (\<forall>r \<in> set new. \<not> ledger_has w (pe_email_id r) \<and> pe_status r = ''processed'' \<and>
        pe_module_id r \<in> Some ` m_id ` set (autoProcessModules w) \<and>
        pe_record_id r \<noteq> None \<and> pe_error_message r = None)"
proof -
  let ?w2 = "(loadDebugSetting ev w)\<lparr> isProcessing := True \<rparr>"
  let ?w3 = "?w2\<lparr> fetch_calls := Suc (fetch_calls ?w2) \<rparr>"
  have triv: "\<exists>new. processed_emails w = processed_emails w @ new \<and>
     distinct (map pe_email_id new) \<and>
     (\<forall>r \<in> set new. \<not> ledger_has w (pe_email_id r) \<and> pe_status r = ''processed'' \<and>
        pe_module_id r \<in> Some ` m_id ` set (autoProcessModules w) \<and>
        pe_record_id r \<noteq> None \<and> pe_error_message r = None)"
    by (rule exI [of _ "[]"]) simp
  have mods: "autoProcessModules ?w2 = autoProcessModules w"
    by (simp add: autoProcessModules_def loadDebugSetting_def)
  have lh: "ledger_has ?w3 x = ledger_has w x" for x
    by (simp add: loadDebugSetting_def)
  have pe3: "processed_emails ?w3 = processed_emails w"
    by (simp add: loadDebugSetting_def)
  consider (guard) "isProcessing w"
    | (quiet) "\<not> isProcessing w" "modules_query_fails ev \<or> autoProcessModules w = [] \<or> \<not> fetch_ok ev"
    | (run) "\<not> isProcessing w" "\<not> modules_query_fails ev" "autoProcessModules w \<noteq> []" "fetch_ok ev"
    by blast
  then show ?thesis
  proof cases
    case guard
    then have "processed_emails (processEmails ev w) = processed_emails w"
      by (simp add: processEmails_unfold loadDebugSetting_def)
    then show ?thesis using triv by simp
  next
    case quiet
    then have "processed_emails (processEmails ev w) = processed_emails w"
      using mods
      by (auto simp: processEmails_unfold processEmails_try_def fetchInboxEmails_def
          loadDebugSetting_def Let_def)
    then show ?thesis using triv by simp
  next
    case run
    let ?emails = "take 50 (filter (\<lambda>e. if True then \<not> isRead e else True) (mailbox ?w2))"
    have "processEmails ev w =
       (processEmails_loop ev (autoProcessModules w) ?w3 ?emails)\<lparr> isProcessing := False \<rparr>"
      using run mods
      by (simp add: processEmails_unfold processEmails_try_def fetchInboxEmails_def
          loadDebugSetting_def Let_def)
    then have "processed_emails (processEmails ev w) =
       processed_emails (processEmails_loop ev (autoProcessModules w) ?w3 ?emails)"
      by simp
    then show ?thesis
      using processEmails_loop_ledger [of ev "autoProcessModules w" ?w3 ?emails]
      by (simp only: lh pe3)
  qed
qed

lemma route_process_ledger:
  "\<exists>new. processed_emails (snd (route_process ev w)) = processed_emails w @ new \<and>
     distinct (map pe_email_id new) \<and>
     (\<forall>r \<in> set new. \<not> ledger_has w (pe_email_id r))"
proof (cases "fetch_ok ev")
  case False
  then have "processed_emails (snd (route_process ev w)) = processed_emails w"
    by (simp add: route_process_def fetchInboxEmails_def)
  then show ?thesis by (intro exI [of _ "[]"]) simp
next
  case True
  let ?w1 = "w\<lparr> fetch_calls := Suc (fetch_calls w) \<rparr>"
  let ?emails = "take 50 (filter (\<lambda>e. if True then \<not> isRead e else True) (mailbox w))"
  have "snd (route_process ev w) = snd (route_process_loop ev ?w1 ?emails [])"
    using True by (simp add: route_process_def fetchInboxEmails_def split: prod.splits option.splits)
  then show ?thesis
    using route_process_loop_ledger [of ev ?w1 ?emails "[]"] by simp
qed

lemma processEmails_message_known:
  assumes "ledger_has w (email_id e)"
  shows "snd (processEmails_message ev mods w e) = w"
  using assms by (simp add: processEmails_message_def)

lemma route_process_message_known:
  assumes "ledger_has w (email_id e)"
  shows "snd (route_process_message ev w e) = w"
  using assms by (simp add: route_process_message_def)

lemma route_process_single_known:
  assumes "ledger_has w x"
  shows "snd (route_process_single ev w x mn) = w\<lparr> fetch_calls := Suc (fetch_calls w) \<rparr>"
  using assms
  by (simp add: route_process_single_def fetchInboxEmails_def split: option.splits)

lemma processEmails_message_keeps:
  assumes "processEmails_message ev mods w e = (out, w')" and "ledger_has w x"
  shows "ledger_has w' x"
  using processEmails_message_ledger [OF assms(1)] assms(2)
  by (auto simp: ledger_has_iff)

lemma route_process_message_keeps:
  assumes "route_process_message ev w e = (out, w')" and "ledger_has w x"
  shows "ledger_has w' x"
  using route_process_message_ledger [OF assms(1)] assms(2)
  by (auto simp: ledger_has_iff)

lemma processEmails_loop_skips:
  assumes "ledger_has w x" and "\<not> ledger_lookup_fails ev x"
  shows "processEmails_loop ev mods w es =
         processEmails_loop ev mods w (filter (\<lambda>e. email_id e \<noteq> x) es)"
  using assms(1)
proof (induction es arbitrary: w)
  case Nil
  show ?case by simp
next
  case (Cons e es)
  show ?case
  proof (cases "email_id e = x")
    case True
    then have "processEmails_message ev mods w e = (AlreadyProcessed, w)"
      using Cons.prems assms(2) by (simp add: processEmails_message_def)
    then show ?thesis using True Cons.IH [OF Cons.prems] by simp
  next
    case False
    obtain out w1 where st: "processEmails_message ev mods w e = (out, w1)"
      by (cases "processEmails_message ev mods w e")
    have k: "ledger_has w1 x" using processEmails_message_keeps [OF st Cons.prems] .
    show ?thesis
      using False st Cons.IH [OF k] by (cases out) simp_all
  qed
qed

lemma route_process_loop_acc:
  "snd (route_process_loop ev w es acc) = snd (route_process_loop ev w es acc')"
proof (induction es arbitrary: w acc acc')
  case Nil
  show ?case by simp
next
  case (Cons e es)
  obtain out w1 where st: "route_process_message ev w e = (out, w1)"
    by (cases "route_process_message ev w e")
  show ?case
    using st Cons.IH [of w1 "acc @ [(email_id e, out)]" "acc' @ [(email_id e, out)]"]
    by (cases out) simp_all
qed

lemma route_process_loop_skips:
  assumes "ledger_has w x" and "\<not> ledger_lookup_fails ev x"
  shows "snd (route_process_loop ev w es acc) =
         snd (route_process_loop ev w (filter (\<lambda>e. email_id e \<noteq> x) es) acc)"
  using assms(1)
proof (induction es arbitrary: w acc)
  case Nil
  show ?case by simp
next
  case (Cons e es)
  show ?case
  proof (cases "email_id e = x")
    case True
    then have "route_process_message ev w e = (AlreadyProcessed, w)"
      using Cons.prems assms(2) by (simp add: route_process_message_def)
    then have "snd (route_process_loop ev w (e # es) acc) =
        snd (route_process_loop ev w es (acc @ [(email_id e, AlreadyProcessed)]))"
      by simp
    also have "\<dots> = snd (route_process_loop ev w es acc)"
      by (rule route_process_loop_acc)
    finally show ?thesis using True Cons.IH [OF Cons.prems, of acc] by simp
  next
    case False
    obtain out w1 where st: "route_process_message ev w e = (out, w1)"
      by (cases "route_process_message ev w e")
    have k: "ledger_has w1 x" using route_process_message_keeps [OF st Cons.prems] .
    show ?thesis
      using False st Cons.IH [OF k, of "acc @ [(email_id e, out)]"] by (cases out) simp_all
  qed
qed

lemma route_process_single_cases:
  "snd (route_process_single ev w x mn) = w\<lparr> fetch_calls := Suc (fetch_calls w) \<rparr> \<or>
   (\<exists>e md. email_id e = x \<and> \<not> ledger_has w x \<and>
      snd (route_process_single ev w x mn) =
        snd (ingestEmail Single ev (w\<lparr> fetch_calls := Suc (fetch_calls w) \<rparr>) e md
               (cleanSubject (parseModuleTagFromSubject (subject e)))))"
proof -
  let ?w1 = "w\<lparr> fetch_calls := Suc (fetch_calls w) \<rparr>"
  let ?tm = "\<lambda>e. if truthyStr mn then mn else moduleName (parseModuleTagFromSubject (subject e))"
  show ?thesis
  proof (cases "fetch_ok ev")
    case False
    then show ?thesis by (simp add: route_process_single_def fetchInboxEmails_def)
  next
    case ok: True
    let ?emails = "take 100 (mailbox w)"
    have f: "fetchInboxEmails ev w 100 False = (Some ?emails, ?w1)"
      using ok by (simp add: fetchInboxEmails_def)
    show ?thesis
    proof (cases "List.find (\<lambda>e. email_id e = x) ?emails")
      case None
      then show ?thesis using f by (simp add: route_process_single_def)
    next
      case (Some e)
      have ex: "email_id e = x" using find_in_set [OF Some] by simp
      show ?thesis
      proof (cases "ledger_lookup_fails ev x \<or> ledger_has w x \<or> \<not> truthyStr (?tm e) \<or>
                    module_lookup_fails ev (the (?tm e))")
        case True
        then show ?thesis using f Some
          by (auto simp: route_process_single_def Let_def ledger_has_def)
      next
        case False
        then have c: "\<not> ledger_lookup_fails ev x" "\<not> ledger_has w x" "truthyStr (?tm e)"
          "\<not> module_lookup_fails ev (the (?tm e))" by simp_all
        have lh: "\<not> ledger_has ?w1 x" using c(2) by (simp add: ledger_has_def)
        show ?thesis
        proof (cases "find_module ?w1 (the (?tm e))")
          case None
          then have "snd (route_process_single ev w x mn) = ?w1"
            using f Some c lh by (simp add: route_process_single_def Let_def)
          then show ?thesis by simp
        next
          case (Some md)
          obtain res w' where ing: "ingestEmail Single ev ?w1 e md
               (cleanSubject (parseModuleTagFromSubject (subject e))) = (res, w')"
            by (cases "ingestEmail Single ev ?w1 e md
               (cleanSubject (parseModuleTagFromSubject (subject e)))")
          have "snd (route_process_single ev w x mn) = w'"
            using f \<open>List.find (\<lambda>e. email_id e = x) ?emails = Some e\<close> c lh Some ing
            by (cases res) (simp_all add: route_process_single_def Let_def)
          then have "email_id e = x \<and> \<not> ledger_has w x \<and>
              snd (route_process_single ev w x mn) =
                snd (ingestEmail Single ev ?w1 e md
                       (cleanSubject (parseModuleTagFromSubject (subject e))))"
            using ex c(2) ing by simp
          then show ?thesis by (intro disjI2 exI [of _ e] exI [of _ md])
        qed
      qed
    qed
  qed
qed

lemma route_process_single_ledger:
  "\<exists>new. processed_emails (snd (route_process_single ev w x mn)) = processed_emails w @ new \<and>
     distinct (map pe_email_id new) \<and>
     (\<forall>r \<in> set new. \<not> ledger_has w (pe_email_id r))"
proof -
  let ?w1 = "w\<lparr> fetch_calls := Suc (fetch_calls w) \<rparr>"
  from route_process_single_cases [of ev w x mn]
  show ?thesis
  proof (elim disjE exE conjE)
    assume "snd (route_process_single ev w x mn) = ?w1"
    then show ?thesis by (intro exI [of _ "[]"]) simp
  next
    fix e md
    assume eq: "snd (route_process_single ev w x mn) =
        snd (ingestEmail Single ev ?w1 e md (cleanSubject (parseModuleTagFromSubject (subject e))))"
    obtain res w' where ing: "ingestEmail Single ev ?w1 e md
               (cleanSubject (parseModuleTagFromSubject (subject e))) = (res, w')"
      by (cases "ingestEmail Single ev ?w1 e md
               (cleanSubject (parseModuleTagFromSubject (subject e)))")
    from ingestEmail_ledger [OF ing]
    show ?thesis
    proof (elim disjE exE conjE)
      assume "processed_emails w' = processed_emails ?w1"
      then show ?thesis using eq ing by (intro exI [of _ "[]"]) simp
    next
      fix row r
      assume "processed_emails w' = processed_emails ?w1 @ [row]"
        "\<not> ledger_has ?w1 (email_id e)" "pe_email_id row = email_id e"
      then show ?thesis using eq ing by (intro exI [of _ "[row]"]) (simp add: ledger_has_def)
    qed
  qed
qed

lemma ledger_rows_kept:
  assumes "processed_emails w' = processed_emails w @ new"
    and "\<forall>r \<in> set new. \<not> ledger_has w (pe_email_id r)"
    and "ledger_has w x"
  shows "filter (\<lambda>r. pe_email_id r = x) (processed_emails w') =
         filter (\<lambda>r. pe_email_id r = x) (processed_emails w)"
proof -
  have "\<forall>r \<in> set new. pe_email_id r \<noteq> x" using assms(2,3) by auto
  then have "filter (\<lambda>r. pe_email_id r = x) new = []" by (simp add: filter_empty_conv)
  then show ?thesis using assms(1) by simp
qed

lemma ledger_distinct_kept:
  assumes "processed_emails w' = processed_emails w @ new"
    and "distinct (map pe_email_id new)"
    and "\<forall>r \<in> set new. \<not> ledger_has w (pe_email_id r)"
    and "distinct (map pe_email_id (processed_emails w))"
  shows "distinct (map pe_email_id (processed_emails w'))"
proof -
  have "\<forall>r \<in> set new. pe_email_id r \<notin> pe_email_id ` set (processed_emails w)"
    using assms(3) by (simp add: ledger_has_iff)
  then have "pe_email_id ` set (processed_emails w) \<inter> pe_email_id ` set new = {}"
    by (rule disjoint_images)
  then show ?thesis using assms(1,2,4) by simp
qed

section \<open>Properties of the tag parser\<close>

lemma trimJS_dropWhile: "trimJS (dropWhile isSpaceJS s) = trimJS s"
  by (simp add: trimJS_def)

lemma matchTag_bracketed:
  assumes "X \<noteq> []" and "CHR '']'' \<notin> set X"
  shows "matchTag (CHR ''['' # X @ CHR '']'' # rest) = Some (X, rest)"
proof -
  have nb: "\<And>x. x \<in> set X \<Longrightarrow> x \<noteq> CHR '']''" using assms(2) by auto
  have t: "takeWhile (\<lambda>x. x \<noteq> CHR '']'') (X @ CHR '']'' # rest) = X"
    using nb by simp
  have d: "dropWhile (\<lambda>x. x \<noteq> CHR '']'') (X @ CHR '']'' # rest) = CHR '']'' # rest"
    using nb by simp
  show ?thesis
    using assms(1) by (simp add: matchTag_def t d)
qed

lemma matchTag_no_bracket:
  assumes "s = [] \<or> hd s \<noteq> CHR ''[''"
  shows "matchTag s = None"
  using assms by (cases s) (auto simp: matchTag_def)

text \<open>
  C6 (as written) fails: the captured tag is lower-cased, so its case is not preserved.
\<close>

theorem C6_tag_case_counterexample:
  "moduleName (parseModuleTagFromSubject ''[Support] Customer issue'') = Some ''support'' \<and>
   moduleName (parseModuleTagFromSubject ''[Support] Customer issue'') \<noteq> Some ''Support'' \<and>
   cleanSubject (parseModuleTagFromSubject ''[Support] Customer issue'') = ''Customer issue''"
  by code_simp

text \<open>
  C6 (amended): for a subject \<open>[X]rest\<close> with \<open>X\<close> non-empty and free of \<open>]\<close>, the parser
  returns the tag \<open>X\<close> lower-cased and trimmed and the clean subject \<open>rest\<close> with the white
  space after the bracket (and any other leading or trailing white space) removed; for a
  subject that does not start with \<open>[\<close> it returns no tag and the subject unchanged.
\<close>

theorem C6_parse_tag:
  "(X \<noteq> [] \<and> CHR '']'' \<notin> set X \<longrightarrow>
      parseModuleTagFromSubject (CHR ''['' # X @ CHR '']'' # rest) =
        \<lparr> moduleName = Some (trimJS (toLowerCaseJS X)), cleanSubject = trimJS rest \<rparr>) \<and>
   (s = [] \<or> hd s \<noteq> CHR ''['' \<longrightarrow>
      parseModuleTagFromSubject s = \<lparr> moduleName = None, cleanSubject = s \<rparr>)"
  by (simp add: parseModuleTagFromSubject_def matchTag_bracketed matchTag_no_bracket
      trimJS_dropWhile)

theorem C6_parse_tag_witness:
  "parseModuleTagFromSubject ''[Help Desk] Printer  jam '' =
     \<lparr> moduleName = Some ''help desk'', cleanSubject = ''Printer  jam'' \<rparr> \<and>
   parseModuleTagFromSubject ''Printer jam'' =
     \<lparr> moduleName = None, cleanSubject = ''Printer jam'' \<rparr>"
proof -
  have h1: "trimJS (toLowerCaseJS ''Help Desk'') = ''help desk''" by code_simp
  have h2: "trimJS '' Printer  jam '' = ''Printer  jam''" by code_simp
  show ?thesis
    using h1 h2 C6_parse_tag [of "''Help Desk''" "'' Printer  jam ''" "''Printer jam''"]
    by simp
qed

section \<open>C1: a message that is already in the ledger\<close>

text \<open>
  C1.  For a message whose \<open>emailId\<close> already has a row in \<open>processed_emails\<close>, every
  processing path leaves the store alone: the loop body of the scheduled pass and of the
  manual bulk pass return the world unchanged, the single-message endpoint changes nothing
  but the count of mailbox fetches, the rows of that \<open>emailId\<close> are the same after a whole
  pass as before it, and (when the ledger lookup itself does not throw) a pass over a batch
  gives the same store as the pass over the batch without that message.  No path ever
  gives one \<open>emailId\<close> a second row: a ledger with pairwise distinct ids keeps them distinct.
\<close>

theorem C1_ledgered_message_is_left_alone:
  "(ledger_has w x \<longrightarrow>
      (\<forall>e. email_id e = x \<longrightarrow>
         snd (processEmails_message ev mods w e) = w \<and> snd (route_process_message ev w e) = w) \<and>
      snd (route_process_single ev w x mn) = w\<lparr> fetch_calls := Suc (fetch_calls w) \<rparr> \<and>
      filter (\<lambda>r. pe_email_id r = x) (processed_emails (processEmails ev w)) =
        filter (\<lambda>r. pe_email_id r = x) (processed_emails w) \<and>
      filter (\<lambda>r. pe_email_id r = x) (processed_emails (snd (route_process ev w))) =
        filter (\<lambda>r. pe_email_id r = x) (processed_emails w) \<and>
      (\<not> ledger_lookup_fails ev x \<longrightarrow>
         processEmails_loop ev mods w es =
           processEmails_loop ev mods w (filter (\<lambda>e. email_id e \<noteq> x) es) \<and>
         snd (route_process_loop ev w es acc) =
           snd (route_process_loop ev w (filter (\<lambda>e. email_id e \<noteq> x) es) acc))) \<and>
   (distinct (map pe_email_id (processed_emails w)) \<longrightarrow>
      distinct (map pe_email_id (processed_emails (processEmails ev w))) \<and>
      distinct (map pe_email_id (processed_emails (snd (route_process ev w)))) \<and>
      distinct (map pe_email_id (processed_emails (snd (route_process_single ev w y mn')))))"
proof (intro conjI impI allI)
  fix e :: email
  assume "ledger_has w x" "email_id e = x"
  then show "snd (processEmails_message ev mods w e) = w"
    by (simp add: processEmails_message_known)
next
  fix e :: email
  assume "ledger_has w x" "email_id e = x"
  then show "snd (route_process_message ev w e) = w"
    by (simp add: route_process_message_known)
next
  assume "ledger_has w x"
  then show "snd (route_process_single ev w x mn) = w\<lparr> fetch_calls := Suc (fetch_calls w) \<rparr>"
    by (rule route_process_single_known)
next
  assume h: "ledger_has w x"
  obtain new where "processed_emails (processEmails ev w) = processed_emails w @ new"
    "\<forall>r \<in> set new. \<not> ledger_has w (pe_email_id r)"
    using processEmails_ledger [of ev w] by (elim exE conjE) simp
  then show "filter (\<lambda>r. pe_email_id r = x) (processed_emails (processEmails ev w)) =
        filter (\<lambda>r. pe_email_id r = x) (processed_emails w)"
    using h by (rule ledger_rows_kept)
next
  assume h: "ledger_has w x"
  obtain new where "processed_emails (snd (route_process ev w)) = processed_emails w @ new"
    "\<forall>r \<in> set new. \<not> ledger_has w (pe_email_id r)"
    using route_process_ledger [of ev w] by (elim exE conjE)
  then show "filter (\<lambda>r. pe_email_id r = x) (processed_emails (snd (route_process ev w))) =
        filter (\<lambda>r. pe_email_id r = x) (processed_emails w)"
    using h by (rule ledger_rows_kept)
next
  assume "ledger_has w x" "\<not> ledger_lookup_fails ev x"
  then show "processEmails_loop ev mods w es =
           processEmails_loop ev mods w (filter (\<lambda>e. email_id e \<noteq> x) es)"
    by (rule processEmails_loop_skips)
next
  assume "ledger_has w x" "\<not> ledger_lookup_fails ev x"
  then show "snd (route_process_loop ev w es acc) =
           snd (route_process_loop ev w (filter (\<lambda>e. email_id e \<noteq> x) es) acc)"
    by (rule route_process_loop_skips)
next
  assume d: "distinct (map pe_email_id (processed_emails w))"
  obtain new where "processed_emails (processEmails ev w) = processed_emails w @ new"
    "distinct (map pe_email_id new)" "\<forall>r \<in> set new. \<not> ledger_has w (pe_email_id r)"
    using processEmails_ledger [of ev w] by (elim exE conjE) simp
  then show "distinct (map pe_email_id (processed_emails (processEmails ev w)))"
    using d by (rule ledger_distinct_kept)
next
  assume d: "distinct (map pe_email_id (processed_emails w))"
  obtain new where "processed_emails (snd (route_process ev w)) = processed_emails w @ new"
    "distinct (map pe_email_id new)" "\<forall>r \<in> set new. \<not> ledger_has w (pe_email_id r)"
    using route_process_ledger [of ev w] by (elim exE conjE)
  then show "distinct (map pe_email_id (processed_emails (snd (route_process ev w))))"
    using d by (rule ledger_distinct_kept)
next
  assume d: "distinct (map pe_email_id (processed_emails w))"
  obtain new where
    "processed_emails (snd (route_process_single ev w y mn')) = processed_emails w @ new"
    "distinct (map pe_email_id new)" "\<forall>r \<in> set new. \<not> ledger_has w (pe_email_id r)"
    using route_process_single_ledger [of ev w y mn'] by (elim exE conjE)
  then show "distinct (map pe_email_id (processed_emails (snd (route_process_single ev w y mn'))))"
    using d by (rule ledger_distinct_kept)
qed

theorem C1_ledgered_message_is_left_alone_witness:
  "ledger_has demo_world_seen ''m1'' \<and>
   distinct (map pe_email_id (processed_emails demo_world_seen)) \<and>
   snd (route_process_single demo_env demo_world_seen ''m1'' None) =
     demo_world_seen\<lparr> fetch_calls := Suc (fetch_calls demo_world_seen) \<rparr> \<and>
   filter (\<lambda>r. pe_email_id r = ''m1'') (processed_emails (processEmails demo_env demo_world_seen)) =
     filter (\<lambda>r. pe_email_id r = ''m1'') (processed_emails demo_world_seen) \<and>
   distinct (map pe_email_id (processed_emails (snd (route_process demo_env demo_world_seen))))"
proof -
  have h: "ledger_has demo_world_seen ''m1''"
    by (simp add: ledger_has_def demo_world_seen_def demo_ledger_row_def)
  have d: "distinct (map pe_email_id (processed_emails demo_world_seen))"
    by (simp add: demo_world_seen_def)
  show ?thesis
    using h d
      C1_ledgered_message_is_left_alone
        [of demo_world_seen "''m1''" demo_env "[]" None "[]" "[]" "''m1''" None]
    by blast
qed

section \<open>C2: the ledger row follows the record\<close>

lemma ingestEmail_record_fails:
  "insert_record_fails ev e \<Longrightarrow> ingestEmail v ev w e md cs = (None, w)"
  by (simp add: ingestEmail_def Let_def)

lemma processEmails_message_record_fails:
  assumes "insert_record_fails ev e"
  shows "snd (processEmails_message ev mods w e) = w"
proof -
  obtain out w' where st: "processEmails_message ev mods w e = (out, w')"
    by (cases "processEmails_message ev mods w e")
  from processEmails_message_cases [OF st] have "w' = w"
    using ingestEmail_record_fails [OF assms] by auto
  then show ?thesis using st by simp
qed

lemma route_process_message_record_fails:
  assumes "insert_record_fails ev e"
    and "fst (route_process_message ev w e) \<notin> {NoTag, NoModule, InboxDisabled}"
  shows "snd (route_process_message ev w e) = w"
proof -
  obtain out w' where st: "route_process_message ev w e = (out, w')"
    by (cases "route_process_message ev w e")
  have o: "out \<notin> {NoTag, NoModule, InboxDisabled}" using assms(2) st by simp
  from route_process_message_cases [OF st] have "w' = w"
    using ingestEmail_record_fails [OF assms(1)] o by auto
  then show ?thesis using st by simp
qed

text \<open>
  C2.  The ledger row with status \<open>processed\<close> is written only after the record insert
  has succeeded.  When the insert into \<open>module_records\<close> throws, the pipeline returns with
  the world unchanged: no ledger row, no read mark, so the message is still unread and
  un-ledgered for the next pass.  This holds for the pipeline itself, for the loop body of
  the scheduled pass, and for the loop body of the manual bulk pass whenever the message
  was not routed to one of its terminal skip or error rows (which never attempt the
  insert).  Conversely, whenever a loop body adds a ledger row with status \<open>processed\<close>,
  the same step has appended the record that the row points to.
\<close>

theorem C2_ledger_row_only_after_record:
  "(insert_record_fails ev e \<longrightarrow>
      ingestEmail v ev w e md cs = (None, w) \<and>
      snd (processEmails_message ev mods w e) = w \<and>
      (fst (route_process_message ev w e) \<notin> {NoTag, NoModule, InboxDisabled} \<longrightarrow>
         snd (route_process_message ev w e) = w)) \<and>
   (processed_emails (snd (processEmails_message ev mods w e)) = processed_emails w \<or>
    (\<exists>row r.
       processed_emails (snd (processEmails_message ev mods w e)) = processed_emails w @ [row] \<and>
       module_records (snd (processEmails_message ev mods w e)) = module_records w @ [r] \<and>
       pe_status row = ''processed'' \<and> pe_record_id row = Some (record_id r) \<and>
       \<not> insert_record_fails ev e)) \<and>
   (processed_emails (snd (route_process_message ev w e)) = processed_emails w \<or>
    (\<exists>row.
       processed_emails (snd (route_process_message ev w e)) = processed_emails w @ [row] \<and>
       (pe_status row = ''processed'' \<longrightarrow>
          (\<exists>r. module_records (snd (route_process_message ev w e)) = module_records w @ [r] \<and>
               pe_record_id row = Some (record_id r) \<and> \<not> insert_record_fails ev e))))"
proof (intro conjI impI)
  assume "insert_record_fails ev e"
  then show "ingestEmail v ev w e md cs = (None, w)" by (rule ingestEmail_record_fails)
next
  assume "insert_record_fails ev e"
  then show "snd (processEmails_message ev mods w e) = w"
    by (rule processEmails_message_record_fails)
next
  assume "insert_record_fails ev e"
    "fst (route_process_message ev w e) \<notin> {NoTag, NoModule, InboxDisabled}"
  then show "snd (route_process_message ev w e) = w"
    by (rule route_process_message_record_fails)
next
  obtain out w' where st: "processEmails_message ev mods w e = (out, w')"
    by (cases "processEmails_message ev mods w e")
  from processEmails_message_ledger [OF st]
  show "processed_emails (snd (processEmails_message ev mods w e)) = processed_emails w \<or>
    (\<exists>row r.
       processed_emails (snd (processEmails_message ev mods w e)) = processed_emails w @ [row] \<and>
       module_records (snd (processEmails_message ev mods w e)) = module_records w @ [r] \<and>
       pe_status row = ''processed'' \<and> pe_record_id row = Some (record_id r) \<and>
       \<not> insert_record_fails ev e)"
    unfolding st snd_conv by (elim disjE exE conjE) (simp, intro disjI2 exI conjI, assumption+)
next
  obtain out w' where st: "route_process_message ev w e = (out, w')"
    by (cases "route_process_message ev w e")
  from route_process_message_ledger [OF st]
  show "processed_emails (snd (route_process_message ev w e)) = processed_emails w \<or>
    (\<exists>row.
       processed_emails (snd (route_process_message ev w e)) = processed_emails w @ [row] \<and>
       (pe_status row = ''processed'' \<longrightarrow>
          (\<exists>r. module_records (snd (route_process_message ev w e)) = module_records w @ [r] \<and>
               pe_record_id row = Some (record_id r) \<and> \<not> insert_record_fails ev e)))"
    unfolding st snd_conv by (elim disjE exE conjE) (simp, intro disjI2 exI conjI, assumption+)
qed

theorem C2_ledger_row_only_after_record_witness:
  "insert_record_fails demo_env_record_fails (demo_email ''[Support] Broken chair'' ''Hi'') \<and>
   snd (processEmails_message demo_env_record_fails [demo_module (ConfigValue True True)]
          (demo_world (ConfigValue True True) ''[Support] Broken chair'' ''Hi'')
          (demo_email ''[Support] Broken chair'' ''Hi'')) =
     demo_world (ConfigValue True True) ''[Support] Broken chair'' ''Hi'' \<and>
   snd (route_process_message demo_env_record_fails
          (demo_world (ConfigValue True True) ''[Support] Broken chair'' ''Hi'')
          (demo_email ''[Support] Broken chair'' ''Hi'')) =
     demo_world (ConfigValue True True) ''[Support] Broken chair'' ''Hi''"
proof -
  let ?W = "demo_world (ConfigValue True True) ''[Support] Broken chair'' ''Hi''"
  let ?E = "demo_email ''[Support] Broken chair'' ''Hi''"
  have h1: "insert_record_fails demo_env_record_fails ?E"
    by (simp add: demo_env_record_fails_def)
  have h2: "fst (route_process_message demo_env_record_fails ?W ?E) \<notin> {NoTag, NoModule, InboxDisabled}"
    by code_simp
  show ?thesis
    using h1 h2
      C2_ledger_row_only_after_record
        [of demo_env_record_fails ?E Auto ?W "demo_module (ConfigValue True True)" "[]"
            "[demo_module (ConfigValue True True)]"]
    by blast
qed

section \<open>C3: a message without a tag\<close>

lemma no_bracket_no_tag:
  assumes "s = [] \<or> hd s \<noteq> CHR ''[''"
  shows "\<not> truthyStr (moduleName (parseModuleTagFromSubject s))"
  using matchTag_no_bracket [OF assms] by (simp add: parseModuleTagFromSubject_def)

text \<open>
  C3 (as written) fails for the scheduled pass: on an unread, un-ledgered message whose
  subject has no tag it writes no ledger row at all.
\<close>

theorem C3_scheduled_pass_counterexample:
  "\<not> truthyStr (moduleName (parseModuleTagFromSubject ''Broken chair'')) \<and>
   mailbox (demo_world (ConfigValue True True) ''Broken chair'' ''Hi'') =
     [demo_email ''Broken chair'' ''Hi''] \<and>
   \<not> isRead (demo_email ''Broken chair'' ''Hi'') \<and>
   processed_emails (demo_world (ConfigValue True True) ''Broken chair'' ''Hi'') = [] \<and>
   processed_emails (processEmails demo_env (demo_world (ConfigValue True True) ''Broken chair'' ''Hi'')) = []"
  by code_simp

text \<open>
  C3 (amended).  A subject that does not start with \<open>[\<close> has no tag.  For a message that
  has no tag and is not yet in the ledger, the loop body of the manual bulk pass writes
  exactly one ledger row, with status \<open>skipped\<close>, error message
  \<open>No module tag in subject\<close>, no module id and no record id, and does nothing else (given
  that the insert succeeds); the loop body of the scheduled pass writes no ledger row for
  such a message and leaves the world unchanged.
\<close>

theorem C3_untagged_message:
  "(s = [] \<or> hd s \<noteq> CHR ''['' \<longrightarrow> \<not> truthyStr (moduleName (parseModuleTagFromSubject s))) \<and>
   (\<not> truthyStr (moduleName (parseModuleTagFromSubject (subject e))) \<and>
    \<not> ledger_has w (email_id e) \<and> \<not> ledger_lookup_fails ev (email_id e) \<longrightarrow>
      processEmails_message ev mods w e = (NoTag, w) \<and>
      (\<not> insert_ledger_fails ev (email_id e) \<longrightarrow>
         route_process_message ev w e =
           (NoTag,
            w\<lparr> processed_emails := processed_emails w @
                 [\<lparr> pe_email_id = email_id e, pe_module_id = None, pe_record_id = None,
                    pe_from_address = fromAddress e, pe_from_name = fromName e,
                    pe_subject = subject e, pe_body_preview = bodyPreview e,
                    pe_received_at = toMySQLDatetime ev (receivedAt e),
                    pe_status = ''skipped'',
                    pe_error_message = Some ''No module tag in subject'' \<rparr>] \<rparr>)))"
  by (simp add: no_bracket_no_tag processEmails_message_def route_process_message_def
      insert_processed_email_def ledgerRow_def Let_def)

theorem C3_untagged_message_witness:
  "processEmails_message demo_env [demo_module (ConfigValue True True)]
     (demo_world (ConfigValue True True) ''Broken chair'' ''Hi'') (demo_email ''Broken chair'' ''Hi'') =
     (NoTag, demo_world (ConfigValue True True) ''Broken chair'' ''Hi'') \<and>
   map pe_status (processed_emails (snd (route_process_message demo_env
     (demo_world (ConfigValue True True) ''Broken chair'' ''Hi'') (demo_email ''Broken chair'' ''Hi'')))) =
     [''skipped'']"
proof -
  let ?W = "demo_world (ConfigValue True True) ''Broken chair'' ''Hi''"
  let ?E = "demo_email ''Broken chair'' ''Hi''"
  have h1: "\<not> truthyStr (moduleName (parseModuleTagFromSubject (subject ?E)))" by code_simp
  have h2: "\<not> ledger_has ?W (email_id ?E)" by code_simp
  have h3: "\<not> ledger_lookup_fails demo_env (email_id ?E)" by (simp add: demo_env_def)
  have h4: "\<not> insert_ledger_fails demo_env (email_id ?E)" by (simp add: demo_env_def)
  have h5: "processed_emails ?W = []" by (simp add: demo_world_def)
  show ?thesis
    using h1 h2 h3 h4 h5
      C3_untagged_message [of "''Broken chair''" ?E ?W demo_env "[demo_module (ConfigValue True True)]"]
    by simp
qed

section \<open>C4: the single-flight guard\<close>








section \<open>C10: what the scheduled pass writes to the ledger\<close>

lemma autoProcessEnabled_iff: "autoProcessEnabled c \<longleftrightarrow> c = ConfigValue True True"
  by (cases c) auto

text \<open>
  C10.  Every ledger row that a scheduled pass adds has status \<open>processed\<close>, no error
  message, a record id, and the id of a module of the prefiltered set, whose members are
  active and have both \<open>enableEmailInbox\<close> and \<open>autoProcessEmails\<close> truthy.  A message
  without a subject tag, or whose tag names no module of that set, leaves the world
  unchanged: the scheduled pass writes no \<open>skipped\<close> or \<open>error\<close> row.
\<close>

theorem C10_scheduled_pass_rows:
  "(\<exists>new. processed_emails (processEmails ev w) = processed_emails w @ new \<and>
      (\<forall>r \<in> set new. pe_status r = ''processed'' \<and>
         pe_module_id r \<in> Some ` m_id ` set (autoProcessModules w) \<and>
         pe_record_id r \<noteq> None \<and> pe_error_message r = None)) \<and>
   (\<forall>m \<in> set (autoProcessModules w). m_is_active m \<and> m_config m = ConfigValue True True) \<and>
   (\<not> truthyStr (moduleName (parseModuleTagFromSubject (subject e))) \<or>
    List.find (\<lambda>m. toLowerCaseJS (m_name m) =
                     toLowerCaseJS (the (moduleName (parseModuleTagFromSubject (subject e))))) mods = None
    \<longrightarrow> snd (processEmails_message ev mods w e) = w)"
proof (intro conjI)
  from processEmails_ledger [of ev w]
  obtain new where n: "processed_emails (processEmails ev w) = processed_emails w @ new"
    "\<forall>r \<in> set new. \<not> ledger_has w (pe_email_id r) \<and> pe_status r = ''processed'' \<and>
        pe_module_id r \<in> Some ` m_id ` set (autoProcessModules w) \<and>
        pe_record_id r \<noteq> None \<and> pe_error_message r = None"
    by (elim exE conjE)
  have "\<forall>r \<in> set new. pe_status r = ''processed'' \<and>
         pe_module_id r \<in> Some ` m_id ` set (autoProcessModules w) \<and>
         pe_record_id r \<noteq> None \<and> pe_error_message r = None"
    using n(2) by simp
  then show "\<exists>new. processed_emails (processEmails ev w) = processed_emails w @ new \<and>
      (\<forall>r \<in> set new. pe_status r = ''processed'' \<and>
         pe_module_id r \<in> Some ` m_id ` set (autoProcessModules w) \<and>
         pe_record_id r \<noteq> None \<and> pe_error_message r = None)"
    using n(1) by (intro exI [of _ new] conjI)
next
  show "\<forall>m \<in> set (autoProcessModules w). m_is_active m \<and> m_config m = ConfigValue True True"
    by (simp add: autoProcessModules_def autoProcessEnabled_iff)
next
  show "\<not> truthyStr (moduleName (parseModuleTagFromSubject (subject e))) \<or>
    List.find (\<lambda>m. toLowerCaseJS (m_name m) =
                     toLowerCaseJS (the (moduleName (parseModuleTagFromSubject (subject e))))) mods = None
    \<longrightarrow> snd (processEmails_message ev mods w e) = w"
    by (auto simp: processEmails_message_def Let_def)
qed

theorem C10_scheduled_pass_rows_witness:
  "map pe_status (processed_emails (processEmails demo_env
      (demo_world (ConfigValue True True) ''[Support] Broken chair'' ''Hi''))) = [''processed''] \<and>
   snd (processEmails_message demo_env [demo_module (ConfigValue True True)]
          (demo_world (ConfigValue True True) ''Broken chair'' ''Hi'')
          (demo_email ''Broken chair'' ''Hi'')) =
     demo_world (ConfigValue True True) ''Broken chair'' ''Hi''"
proof -
  let ?W = "demo_world (ConfigValue True True) ''Broken chair'' ''Hi''"
  let ?E = "demo_email ''Broken chair'' ''Hi''"
  have h1: "\<not> truthyStr (moduleName (parseModuleTagFromSubject (subject ?E)))" by code_simp
  have h2: "map pe_status (processed_emails (processEmails demo_env
      (demo_world (ConfigValue True True) ''[Support] Broken chair'' ''Hi''))) = [''processed'']"
    by code_simp
  show ?thesis
    using h1 h2
      C10_scheduled_pass_rows [of demo_env ?W ?E "[demo_module (ConfigValue True True)]"]
    by blast
qed

section \<open>C9: the history entry\<close>

lemma ingestEmail_history:
  assumes "ingestEmail v ev w e md cs = (Some rid, w')"
  shows "\<exists>h. filter (\<lambda>x. rh_action x = ''created'') (record_history w') =
             filter (\<lambda>x. rh_action x = ''created'') (record_history w) @ [h] \<and>
           rh_record_id h = rid \<and>
           rh_description h =
             historyDesc v (length (record_images w') - length (record_images w))
               (length (record_documents w') - length (record_documents w))
               (length (record_links w') - length (record_links w))"
proof -
  from ingestEmail_dest [OF assms]
  obtain rs ps imgs docs ls hs ob mb where d:
    "w' = w\<lparr> module_records := module_records w @ rs,
             last_record_id := last_record_id w + length rs,
             processed_emails := processed_emails w @ ps,
             record_images := record_images w @ imgs,
             record_documents := record_documents w @ docs,
             record_links := record_links w @ ls,
             record_history := record_history w @ hs, outbox := outbox w @ ob, mailbox := mb \<rparr>"
    "\<forall>rid'. Some rid = Some rid' \<longrightarrow>
        rid' = Suc (last_record_id w) \<and> ps \<noteq> [] \<and>
        (\<exists>h. filter (\<lambda>x. rh_action x = ''created'') hs = [h] \<and> rh_record_id h = rid' \<and>
             rh_description h = historyDesc v (length imgs) (length docs) (length ls))"
    by (elim exE conjE)
  from d(2) obtain h where h: "filter (\<lambda>x. rh_action x = ''created'') hs = [h]"
    "rh_record_id h = rid"
    "rh_description h = historyDesc v (length imgs) (length docs) (length ls)"
    by auto
  have "filter (\<lambda>x. rh_action x = ''created'') (record_history w') =
             filter (\<lambda>x. rh_action x = ''created'') (record_history w) @ [h]"
    using d(1) h(1) by simp
  moreover have "length (record_images w') - length (record_images w) = length imgs"
    "length (record_documents w') - length (record_documents w) = length docs"
    "length (record_links w') - length (record_links w) = length ls"
    using d(1) by simp_all
  ultimately show ?thesis using h(2,3) by (intro exI [of _ h]) simp
qed

lemma processEmails_message_processed:
  assumes "processEmails_message ev mods w e = (Processed rid, w')"
  shows "\<exists>md cs. ingestEmail Auto ev w e md cs = (Some rid, w')"
  using processEmails_message_cases [OF assms]
  by (auto split: option.splits)

lemma route_process_message_processed:
  assumes "route_process_message ev w e = (Processed rid, w')"
  shows "\<exists>md cs. ingestEmail Bulk ev w e md cs = (Some rid, w')"
  using route_process_message_cases [OF assms]
  by (auto split: option.splits)

lemma historyDesc_forms:
  "historyDesc v 0 0 0 = historyPrefix v"
  "0 < i + d \<Longrightarrow> historyDesc v i d 0 =
     historyPrefix v @ '' with '' @ showNat i @ '' image(s) and '' @ showNat d @ '' document(s)''"
  "0 < l \<Longrightarrow> historyDesc v 0 0 l = historyPrefix v @ '' with '' @ showNat l @ '' link(s)''"
  "0 < i + d \<Longrightarrow> 0 < l \<Longrightarrow> historyDesc v i d l =
     historyPrefix v @ '' with '' @ showNat i @ '' image(s) and '' @ showNat d @
       '' document(s), '' @ showNat l @ '' link(s)''"
  by (simp_all add: historyDesc_def historyParts_def Let_def del: showNat.simps)

text \<open>
  C9 (as written) fails twice.  In the scheduled pass the entry written when all counts are
  zero is \<open>Record created from email (auto)\<close>, not the bare text of the claim; and with one
  image and no document the manual bulk pass writes \<open>1 image(s) and 0 document(s)\<close>: a zero
  count is not omitted when the other attachment count is positive.
\<close>

theorem C9_history_text_counterexample:
  "map rh_action (record_history (processEmails demo_env
      (demo_world (ConfigValue True True) ''[Support] Broken chair'' ''Hi''))) =
     [''created'', ''email_sent''] \<and>
   map rh_description (record_history (processEmails demo_env
      (demo_world (ConfigValue True True) ''[Support] Broken chair'' ''Hi''))) =
     [''Record created from email (auto)'', ''Auto-response email sent to a@b.com''] \<and>
   map rh_action (record_history (snd (route_process demo_env_image
      (demo_world (ConfigValue True True) ''[Support] Broken chair'' ''Hi'')))) =
     [''created'', ''email_sent''] \<and>
   map rh_description (record_history (snd (route_process demo_env_image
      (demo_world (ConfigValue True True) ''[Support] Broken chair'' ''Hi'')))) =
     [''Record created from email with 1 image(s) and 0 document(s)'',
      ''Auto-response email sent to a@b.com'']"
  by code_simp

text \<open>
  C9 (amended).  For every successfully processed message (in the scheduled pass, in the
  manual bulk pass, and in the pipeline of any of the three paths) exactly one history
  entry with action \<open>created\<close> is added, for the created record, and its description is
  built from the numbers of image, document and link rows stored for the message: a prefix
  that depends on the path (\<open>Record created from email\<close> in the manual bulk pass, with
  \<open>(auto)\<close> appended in the scheduled pass and \<open>(manual)\<close> in the single-message
  endpoint); the bare prefix when all three counts are zero; an attachment clause
  \<open>N image(s) and M document(s)\<close> with both counts whenever images plus documents is
  positive; a clause \<open>K link(s)\<close> whenever the link count is positive; the clauses follow
  \<open>with\<close> and are separated by a comma.
\<close>

theorem C9_history_entry:
  "((processEmails_message ev mods w e = (Processed rid, w') \<and> v = Auto) \<or>
    (route_process_message ev w e = (Processed rid, w') \<and> v = Bulk) \<or>
    ingestEmail v ev w e md cs = (Some rid, w') \<longrightarrow>
      (\<exists>h. filter (\<lambda>x. rh_action x = ''created'') (record_history w') =
             filter (\<lambda>x. rh_action x = ''created'') (record_history w) @ [h] \<and>
           rh_record_id h = rid \<and>
           rh_description h =
             historyDesc v (length (record_images w') - length (record_images w))
               (length (record_documents w') - length (record_documents w))
               (length (record_links w') - length (record_links w)))) \<and>
   historyPrefix Bulk = ''Record created from email'' \<and>
   historyPrefix Auto = ''Record created from email (auto)'' \<and>
   historyPrefix Single = ''Record created from email (manual)'' \<and>
   historyDesc v 0 0 0 = historyPrefix v \<and>
   (0 < i + d \<longrightarrow> historyDesc v i d 0 =
      historyPrefix v @ '' with '' @ showNat i @ '' image(s) and '' @ showNat d @ '' document(s)'') \<and>
   (0 < l \<longrightarrow> historyDesc v 0 0 l = historyPrefix v @ '' with '' @ showNat l @ '' link(s)'') \<and>
   (0 < i + d \<and> 0 < l \<longrightarrow> historyDesc v i d l =
      historyPrefix v @ '' with '' @ showNat i @ '' image(s) and '' @ showNat d @
        '' document(s), '' @ showNat l @ '' link(s)'')"
proof (intro conjI impI)
  assume a: "(processEmails_message ev mods w e = (Processed rid, w') \<and> v = Auto) \<or>
    (route_process_message ev w e = (Processed rid, w') \<and> v = Bulk) \<or>
    ingestEmail v ev w e md cs = (Some rid, w')"
  have "\<exists>md' cs'. ingestEmail v ev w e md' cs' = (Some rid, w')"
    using a processEmails_message_processed [of ev mods w e rid w']
      route_process_message_processed [of ev w e rid w'] by auto
  then obtain md' cs' where "ingestEmail v ev w e md' cs' = (Some rid, w')" by (elim exE)
  then show "\<exists>h. filter (\<lambda>x. rh_action x = ''created'') (record_history w') =
             filter (\<lambda>x. rh_action x = ''created'') (record_history w) @ [h] \<and>
           rh_record_id h = rid \<and>
           rh_description h =
             historyDesc v (length (record_images w') - length (record_images w))
               (length (record_documents w') - length (record_documents w))
               (length (record_links w') - length (record_links w))"
    by (rule ingestEmail_history)
qed (simp_all add: historyPrefix_def historyDesc_forms del: showNat.simps)

theorem C9_history_entry_witness:
  "fst (route_process_message demo_env_image
          (demo_world (ConfigValue True True) ''[Support] Broken chair'' ''Hi'')
          (demo_email ''[Support] Broken chair'' ''Hi'')) = Processed 1 \<and>
   (\<exists>h. filter (\<lambda>x. rh_action x = ''created'')
          (record_history (snd (route_process_message demo_env_image
             (demo_world (ConfigValue True True) ''[Support] Broken chair'' ''Hi'')
             (demo_email ''[Support] Broken chair'' ''Hi'')))) = [h] \<and>
        rh_record_id h = 1 \<and>
        rh_description h = ''Record created from email with 1 image(s) and 0 document(s)'')"
proof -
  let ?W = "demo_world (ConfigValue True True) ''[Support] Broken chair'' ''Hi''"
  let ?E = "demo_email ''[Support] Broken chair'' ''Hi''"
  let ?W' = "snd (route_process_message demo_env_image ?W ?E)"
  have h1: "fst (route_process_message demo_env_image ?W ?E) = Processed 1" by code_simp
  then have h2: "route_process_message demo_env_image ?W ?E = (Processed 1, ?W')"
    by (cases "route_process_message demo_env_image ?W ?E") simp
  have h3: "record_history ?W = []" "record_images ?W = []" "record_documents ?W = []"
    "record_links ?W = []"
    by (simp_all add: demo_world_def)
  have h4: "length (record_images ?W') = 1" "length (record_documents ?W') = 0"
    "length (record_links ?W') = 0"
    by code_simp+
  have h5: "historyDesc Bulk 1 0 0 = ''Record created from email with 1 image(s) and 0 document(s)''"
    by code_simp
  have "\<exists>h. filter (\<lambda>x. rh_action x = ''created'') (record_history ?W') =
             filter (\<lambda>x. rh_action x = ''created'') (record_history ?W) @ [h] \<and>
           rh_record_id h = 1 \<and>
           rh_description h =
             historyDesc Bulk (length (record_images ?W') - length (record_images ?W))
               (length (record_documents ?W') - length (record_documents ?W))
               (length (record_links ?W') - length (record_links ?W))"
    by (rule C9_history_entry
          [of demo_env_image "[]" ?W ?E 1 ?W' Bulk "demo_module ConfigEmpty" "[]" 0 0 0,
           THEN conjunct1, THEN mp])
       (rule disjI2, rule disjI1, rule conjI, rule h2, rule refl)
  then show ?thesis using h1 h3 h4 h5 by simp
qed

section \<open>C5, C7, C8: where the three copies differ\<close>

text \<open>
  C5.  The single-message endpoint never looks at the module's configuration.  On an
  installation whose module has \<open>enableEmailInbox\<close> false, the manual bulk pass stops at the
  routing-enabled check, while the single-message endpoint creates the record and writes
  the ledger row with status \<open>processed\<close>.
\<close>

theorem C5_single_message_ignores_inbox_switch:
  "inboxDisabled (m_config (demo_module (ConfigValue False False))) = Some True \<and>
   fst (route_process_message demo_env
          (demo_world (ConfigValue False False) ''[Support] Broken chair'' ''Hi'')
          (demo_email ''[Support] Broken chair'' ''Hi'')) = InboxDisabled \<and>
   fst (route_process_single demo_env
          (demo_world (ConfigValue False False) ''[Support] Broken chair'' ''Hi'') ''m1'' None) =
     SingleResult 1 7 \<and>
   map record_module_id (module_records (snd (route_process_single demo_env
          (demo_world (ConfigValue False False) ''[Support] Broken chair'' ''Hi'') ''m1'' None))) = [7] \<and>
   map pe_status (processed_emails (snd (route_process_single demo_env
          (demo_world (ConfigValue False False) ''[Support] Broken chair'' ''Hi'') ''m1'' None))) =
     [''processed'']"
  by code_simp

text \<open>
  C7.  The converter of the scheduled pass is a shorter copy of the one of the routes: it
  does not turn \<open></li>\<close>, \<open></tr>\<close> or a heading close into a newline (they are stripped like
  any other tag), does not decode \<open>&#39;\<close> or \<open>&apos;\<close>, and does not trim blanks around the
  lines.  The converter of the routes does all of these.
\<close>

theorem C7_processor_conversion_differs:
  "htmlToPlainText_processor ''<ul><li>a</li><li>b</li></ul>'' = ''ab'' \<and>
   htmlToPlainText_route ''<ul><li>a</li><li>b</li></ul>'' = [CHR ''a'', CHR 0x0A, CHR ''b''] \<and>
   htmlToPlainText_processor ''<tr><td>a</td></tr><tr><td>b</td></tr>'' = ''ab'' \<and>
   htmlToPlainText_processor ''<h1>T</h1>x'' = ''Tx'' \<and>
   htmlToPlainText_route ''<h1>T</h1>x'' = [CHR ''T'', CHR 0x0A, CHR 0x0A, CHR ''x''] \<and>
   htmlToPlainText_processor ''it&#39;s &apos;ok&apos;'' = ''it&#39;s &apos;ok&apos;'' \<and>
   htmlToPlainText_route ''it&#39;s'' = [CHR ''i'', CHR ''t'', CHR 0x27, CHR ''s''] \<and>
   htmlToPlainText_processor ''a <br> b'' = [CHR ''a'', CHR '' '', CHR 0x0A, CHR '' '', CHR ''b''] \<and>
   htmlToPlainText_route ''a <br> b'' = [CHR ''a'', CHR 0x0A, CHR ''b'']"
  by code_simp

text \<open>
  C8.  The link extractor of the scheduled pass filters on \<open>unsubscribe\<close> and \<open>tracking\<close>
  only: an anchor whose URL contains \<open>click.\<close> is returned by it and left out by the
  extractor of the routes.
\<close>

theorem C8_processor_extractor_differs:
  "extractLinksFromHtml_processor
     (''<a href='' @ [CHR 0x22] @ ''https://click.example.com/x'' @ [CHR 0x22] @ ''>go</a>'') =
     [\<lparr> url = ''https://click.example.com/x'', title = ''go'' \<rparr>] \<and>
   extractLinksFromHtml_route (\<lambda>_. None)
     (''<a href='' @ [CHR 0x22] @ ''https://click.example.com/x'' @ [CHR 0x22] @ ''>go</a>'') = [] \<and>
   includesJS (toLowerCaseJS ''https://click.example.com/x'') ''click.''"
  by code_simp

end
